theory Spec2Isabelle
  imports Complex_Main "HOL-Library.AList"
begin

section \<open>Errors\<close>

text \<open>
  The Python exceptions the routing code can raise. A handler returns the exception it
  ends with (if any) together with the state it leaves behind: Python mutates in place, so
  every assignment made before a raise is still there afterwards.
\<close>

datatype error =
    KeyError | IndexError | TypeError | ZeroDivisionError | AssertionError
  | ValueError | SystemExit

section \<open>Data model\<close>

text \<open>\<^verbatim>\<open>config.RGB_Button\<close>: the colours are lists of integers read from the configuration.\<close>

record RGB_Button =
  uid :: string
  color_off :: "int list"
  color_on :: "int list"

text \<open>The transport and the LED driver objects are external: only their identity is kept.\<close>

datatype RemoteInputServer = RemoteInputServer string int

datatype BrickletRGBLEDButton = BrickletRGBLEDButton string

text \<open>\<^verbatim>\<open>tinkerforge_control.InputServerData\<close>\<close>

record InputServerData =
  server :: RemoteInputServer
  index :: int
  active :: bool
  rgb_button :: RGB_Button

text \<open>What the code prints, without the terminal colouring.\<close>

datatype message =
    No_gamepads_active
  | All_gamepads_active
  | Gamepad_active int
  | Current_state "(int \<times> bool) list"
  | Invalid_hotkey string

text \<open>
  The shared state: the server list every component holds a reference to, the class
  attributes of \<^verbatim>\<open>TinkerforgeControl\<close>, the attributes of \<^verbatim>\<open>HotkeyManager\<close>, and the
  observable effects (the \<^verbatim>\<open>set_color\<close> calls made on the LED drivers, the printed
  messages, the queries sent to the \<^verbatim>\<open>keyboard\<close> library). \<^verbatim>\<open>uid_dict\<close> is an association
  list because the start-up code iterates over it in insertion order.
\<close>

record world =
  server_list :: "InputServerData list"
  uid_poti :: "string option"
  upper_threshold :: int
  lower_threshold :: int
  old_position :: int
  old_section :: int
  uid_dict :: "(string \<times> BrickletRGBLEDButton) list"
  button_state_dict :: "string \<rightharpoonup> bool"
  index_dict :: "string \<rightharpoonup> int list"
  hotkey_list :: "string list"
  currently_pressed :: "string \<rightharpoonup> bool"
  set_color_calls :: "(BrickletRGBLEDButton \<times> int \<times> int \<times> int) list"
  stdout :: "message list"
  is_pressed_calls :: "string list"
  parse_hotkey_calls :: "string list"

text \<open>
  Python list indexing \<^verbatim>\<open>xs[i]\<close> on a list of length \<open>n\<close>: a negative index counts from
  the end, anything outside \<open>-n .. n-1\<close> raises \<^verbatim>\<open>IndexError\<close> (here \<open>None\<close>).
\<close>

definition py_index :: "nat \<Rightarrow> int \<Rightarrow> nat option" where
  "py_index n i =
     (if 0 \<le> i \<and> i < int n then Some (nat i)
      else if i < 0 \<and> - int n \<le> i then Some (nat (int n + i))
      else None)"

section \<open>Indicator Reflector: \<^verbatim>\<open>color_all_buttons\<close> and \<^verbatim>\<open>print_current_state\<close>\<close>

text \<open>\<^verbatim>\<open>tuple(map(add, add_color, old_color))\<close>: \<^verbatim>\<open>map\<close> stops at the shorter argument.\<close>

definition add_colors :: "int list \<Rightarrow> int list \<Rightarrow> int list" where
  "add_colors add_color old_color = map (\<lambda>(x, y). x + y) (zip add_color old_color)"

text \<open>
  The first loop of \<^verbatim>\<open>color_all_buttons\<close>: it fills the two local dictionaries and raises
  \<^verbatim>\<open>KeyError\<close> at a channel whose uid has no driver object in \<^verbatim>\<open>uid_dict\<close>.
\<close>

fun color_loop ::
  "(string \<times> BrickletRGBLEDButton) list \<Rightarrow> InputServerData list \<Rightarrow>
   (string \<times> int list) list \<Rightarrow> (string \<times> BrickletRGBLEDButton) list \<Rightarrow>
   error + ((string \<times> int list) list \<times> (string \<times> BrickletRGBLEDButton) list)" where
  "color_loop ud [] color_dict button_dict = Inr (color_dict, button_dict)"
| "color_loop ud (server_data # rest) color_dict button_dict =
     (let u = uid (rgb_button server_data);
          old_color = (case map_of color_dict u of None \<Rightarrow> [0, 0, 0] | Some c \<Rightarrow> c);
          add_color = (if active server_data then color_on (rgb_button server_data)
                       else color_off (rgb_button server_data));
          color_dict' = AList.update u (add_colors add_color old_color) color_dict
      in case map_of ud u of
           None \<Rightarrow> Inl KeyError
         | Some button \<Rightarrow> color_loop ud rest color_dict' (AList.update u button button_dict))"

text \<open>
  The second loop: \<^verbatim>\<open>button.set_color(*color_dict[uid])\<close> for every entry of
  \<^verbatim>\<open>button_dict\<close>; unpacking anything but three values is a \<^verbatim>\<open>TypeError\<close>.
\<close>

fun set_colors ::
  "(string \<times> int list) list \<Rightarrow> (string \<times> BrickletRGBLEDButton) list \<Rightarrow> world \<Rightarrow>
   error option \<times> world" where
  "set_colors color_dict [] w = (None, w)"
| "set_colors color_dict ((u, button) # rest) w =
     (case map_of color_dict u of
        None \<Rightarrow> (Some KeyError, w)
      | Some c \<Rightarrow>
          if length c = 3
          then set_colors color_dict rest
                 (w\<lparr>set_color_calls := set_color_calls w @ [(button, c ! 0, c ! 1, c ! 2)]\<rparr>)
          else (Some TypeError, w))"

definition color_all_buttons :: "world \<Rightarrow> error option \<times> world" where
  "color_all_buttons w =
     (case color_loop (uid_dict w) (server_list w) [] [] of
        Inl e \<Rightarrow> (Some e, w)
      | Inr (color_dict, button_dict) \<Rightarrow> set_colors color_dict button_dict w)"

definition print_current_state :: "world \<Rightarrow> error option \<times> world" where
  "print_current_state w =
     color_all_buttons
       (w\<lparr>stdout := stdout w @ [Current_state (map (\<lambda>s. (index s, active s)) (server_list w))]\<rparr>)"

section \<open>Button Router: \<^verbatim>\<open>cb_button\<close>\<close>

text \<open>\<^verbatim>\<open>for index in cls.index_dict[uid]: server_list[index].active = new_state\<close>\<close>

fun set_active_indices ::
  "int list \<Rightarrow> bool \<Rightarrow> InputServerData list \<Rightarrow> error option \<times> InputServerData list" where
  "set_active_indices [] new_state sl = (None, sl)"
| "set_active_indices (i # idxs) new_state sl =
     (case py_index (length sl) i of
        None \<Rightarrow> (Some IndexError, sl)
      | Some j \<Rightarrow> set_active_indices idxs new_state (sl[j := (sl ! j)\<lparr>active := new_state\<rparr>]))"

text \<open>The body of the \<^verbatim>\<open>try\<close> block.\<close>

definition cb_button_try :: "string \<Rightarrow> world \<Rightarrow> error option \<times> world" where
  "cb_button_try u w =
     (let new_state = \<not> (case button_state_dict w u of None \<Rightarrow> True | Some b \<Rightarrow> b);
          w1 = w\<lparr>button_state_dict := (button_state_dict w)(u \<mapsto> new_state)\<rparr>
      in case index_dict w1 u of
           None \<Rightarrow> (Some KeyError, w1)
         | Some idxs \<Rightarrow>
             (case set_active_indices idxs new_state (server_list w1) of
                (Some e, sl) \<Rightarrow> (Some e, w1\<lparr>server_list := sl\<rparr>)
              | (None, sl) \<Rightarrow> print_current_state (w1\<lparr>server_list := sl\<rparr>)))"

text \<open>\<^verbatim>\<open>except IndexError: pass\<close>\<close>

definition except_IndexError :: "error option \<times> world \<Rightarrow> error option \<times> world" where
  "except_IndexError r =
     (case r of (Some e, w) \<Rightarrow> (if e = IndexError then (None, w) else (Some e, w))
              | (None, w) \<Rightarrow> (None, w))"

text \<open>
  \<open>state\<close> is the truth value of the driver's button state (0 pressed, 1 released); the
  start-up code passes \<^verbatim>\<open>True\<close>.
\<close>

definition cb_button :: "bool \<Rightarrow> string \<Rightarrow> world \<Rightarrow> error option \<times> world" where
  "cb_button state u w =
     (if state then except_IndexError (cb_button_try u w) else (None, w))"

section \<open>Position Router: \<^verbatim>\<open>cb_position\<close> and \<^verbatim>\<open>start_LinearPoti\<close>\<close>

text \<open>
  \<^verbatim>\<open>section_width\<close> is a Python float, the quotient of two integers; it is modelled by the
  real number it approximates, and \<^verbatim>\<open>int(x // section_width)\<close> by the floor of the exact
  quotient; where the quotient is not a float the two can differ at a section boundary.
  Floor division by \<^verbatim>\<open>0.0\<close> raises \<^verbatim>\<open>ZeroDivisionError\<close>.
\<close>

definition set_all :: "bool \<Rightarrow> InputServerData list \<Rightarrow> InputServerData list" where
  "set_all v sl = map (\<lambda>server_data. server_data\<lparr>active := v\<rparr>) sl"

definition one_section_only :: "int \<Rightarrow> world \<Rightarrow> error option \<times> world" where
  "one_section_only section w =
     (let sl = set_all False (server_list w) in
      case py_index (length sl) (section - 1) of
        None \<Rightarrow> (Some IndexError, w\<lparr>server_list := sl\<rparr>)
      | Some j \<Rightarrow>
          (let sl' = sl[j := (sl ! j)\<lparr>active := True\<rparr>];
               w1 = w\<lparr>server_list := sl'\<rparr>
           in case py_index (length sl') section of
                None \<Rightarrow> (Some IndexError, w1)
              | Some k \<Rightarrow> (None, w1\<lparr>stdout := stdout w1 @ [Gamepad_active (index (sl' ! k))]\<rparr>)))"

definition cb_position :: "int \<Rightarrow> real \<Rightarrow> world \<Rightarrow> error option \<times> world" where
  "cb_position position section_width w =
     (if abs (position - old_position w) > 2 then
        (if section_width = 0 then (Some ZeroDivisionError, w)
         else
           (let section = \<lfloor>real_of_int (position - lower_threshold w) / section_width\<rfloor> in
            if section = old_section w then (None, w)
            else
              (case
                 (if section < 0 then
                    (None, w\<lparr>server_list := set_all False (server_list w),
                              stdout := stdout w @ [No_gamepads_active]\<rparr>)
                  else if section \<ge> int (length (server_list w)) then
                    (None, w\<lparr>server_list := set_all True (server_list w),
                              stdout := stdout w @ [All_gamepads_active]\<rparr>)
                  else one_section_only section w)
               of (Some e, w1) \<Rightarrow> (Some e, w1)
                | (None, w1) \<Rightarrow> (None, w1\<lparr>old_section := section, old_position := position\<rparr>))))
      else (None, w))"

text \<open>The position callback run on the samples the driver delivers, until one raises.\<close>

fun cb_positions :: "int list \<Rightarrow> real \<Rightarrow> world \<Rightarrow> error option \<times> world" where
  "cb_positions [] section_width w = (None, w)"
| "cb_positions (position # rest) section_width w =
     (case cb_position position section_width w of
        (Some e, w1) \<Rightarrow> (Some e, w1)
      | (None, w1) \<Rightarrow> cb_positions rest section_width w1)"

text \<open>\<^verbatim>\<open>config.Linear_Poti\<close>\<close>

record Linear_Poti =
  poti_uid :: "string option"
  poti_upper_threshold :: int
  poti_lower_threshold :: int

text \<open>
  \<^verbatim>\<open>start_LinearPoti\<close>: the settings are copied into the class, the two assertions are
  checked, the section width is computed (dividing by the number of channels), the table of
  steps is printed (\<^verbatim>\<open>print_steps\<close> only prints and is left out), the connection is opened,
  and the callback is called once with the current position \<open>first\<close> and then for every
  sample of \<open>samples\<close>.
\<close>

definition start_LinearPoti :: "Linear_Poti \<Rightarrow> int \<Rightarrow> int list \<Rightarrow> world \<Rightarrow> error option \<times> world" where
  "start_LinearPoti linear_poti first samples w =
     (let w1 = w\<lparr>uid_poti := poti_uid linear_poti,
                 upper_threshold := poti_upper_threshold linear_poti,
                 lower_threshold := poti_lower_threshold linear_poti\<rparr>
      in if uid_poti w1 = None then (Some AssertionError, w1)
         else if \<not> upper_threshold w1 \<ge> lower_threshold w1 then (Some AssertionError, w1)
         else if length (server_list w1) = 0 then (Some ZeroDivisionError, w1)
         else
           (let section_width =
                  real_of_int (upper_threshold w1 - lower_threshold w1)
                    / real (length (server_list w1))
            in cb_positions (first # samples) section_width w1))"

section \<open>Button start-up: \<^verbatim>\<open>start_RGB_Buttons\<close>\<close>

fun register_buttons :: "nat \<Rightarrow> RGB_Button list \<Rightarrow> world \<Rightarrow> world" where
  "register_buttons i [] w = w"
| "register_buttons i (button # rest) w =
     (let w1 = (if map_of (uid_dict w) (uid button) = None
                then w\<lparr>uid_dict := uid_dict w @ [(uid button, BrickletRGBLEDButton (uid button))]\<rparr>
                else w);
          index_list = (case index_dict w1 (uid button) of None \<Rightarrow> [] | Some l \<Rightarrow> l)
      in register_buttons (Suc i) rest
           (w1\<lparr>index_dict := (index_dict w1)(uid button \<mapsto> index_list @ [int i])\<rparr>))"

text \<open>\<^verbatim>\<open>for uid, button in cls.uid_dict.items(): cls.cb_button(True, uid=uid, ...)\<close>\<close>

fun initial_cb_buttons :: "string list \<Rightarrow> world \<Rightarrow> error option \<times> world" where
  "initial_cb_buttons [] w = (None, w)"
| "initial_cb_buttons (u # rest) w =
     (case cb_button True u w of
        (Some e, w1) \<Rightarrow> (Some e, w1)
      | (None, w1) \<Rightarrow> initial_cb_buttons rest w1)"

text \<open>The \<^verbatim>\<open>finally\<close> block of the connection manager switches every LED off.\<close>

definition switch_off :: "world \<Rightarrow> world" where
  "switch_off w =
     w\<lparr>set_color_calls := set_color_calls w @ map (\<lambda>(u, button). (button, 0, 0, 0)) (uid_dict w)\<rparr>"

text \<open>
  \<^verbatim>\<open>start_RGB_Buttons\<close> up to the point where it waits for callbacks; an exception on the
  way passes through the \<^verbatim>\<open>finally\<close> block.
\<close>

definition start_RGB_Buttons :: "world \<Rightarrow> error option \<times> world" where
  "start_RGB_Buttons w =
     (let button_settings = map rgb_button (server_list w) in
      if \<not> length button_settings > 0 then (Some AssertionError, w)
      else
        (let w1 = register_buttons 0 button_settings w in
         case initial_cb_buttons (map fst (uid_dict w1)) w1 of
           (Some e, w2) \<Rightarrow> (Some e, switch_off w2)
         | (None, w2) \<Rightarrow> (None, w2)))"

section \<open>Hotkey Router: \<^verbatim>\<open>HotkeyManager\<close>\<close>

text \<open>
  The \<^verbatim>\<open>keyboard\<close> library is external. \<open>parses\<close> tells whether \<^verbatim>\<open>parse_hotkey\<close> accepts a
  string; a keyboard snapshot \<open>kb\<close> gives what \<^verbatim>\<open>is_pressed\<close> answers during one pass of
  the scan loop (a truth value, or the exception it raises).
\<close>

fun verify_hotkeys :: "(string \<Rightarrow> bool) \<Rightarrow> string list \<Rightarrow> world \<Rightarrow> error option \<times> world" where
  "verify_hotkeys parses [] w = (None, w)"
| "verify_hotkeys parses (hotkey # rest) w =
     (if hotkey \<noteq> [] then
        (let w1 = w\<lparr>parse_hotkey_calls := parse_hotkey_calls w @ [hotkey]\<rparr> in
         if parses hotkey then verify_hotkeys parses rest w1
         else (Some SystemExit, w1\<lparr>stdout := stdout w1 @ [Invalid_hotkey hotkey]\<rparr>))
      else verify_hotkeys parses rest w)"

definition HotkeyManager_init ::
  "(string \<Rightarrow> bool) \<Rightarrow> string list \<Rightarrow> world \<Rightarrow> error option \<times> world" where
  "HotkeyManager_init parses hotkeys w =
     verify_hotkeys parses hotkeys (w\<lparr>hotkey_list := hotkeys, currently_pressed := Map.empty\<rparr>)"

text \<open>The body of the \<^verbatim>\<open>for\<close> loop of \<^verbatim>\<open>scan_loop\<close>, for entry \<open>i\<close> of the hotkey list.\<close>

definition scan_hotkey ::
  "(string \<Rightarrow> error + bool) \<Rightarrow> nat \<Rightarrow> string \<Rightarrow> world \<Rightarrow> error option \<times> world" where
  "scan_hotkey kb i hotkey w =
     (let w1 = w\<lparr>is_pressed_calls := is_pressed_calls w @ [hotkey]\<rparr> in
      case kb hotkey of
        Inl e \<Rightarrow> (Some e, w1)
      | Inr pressed \<Rightarrow>
          if pressed then
            (if currently_pressed w1 hotkey = Some True then (None, w1)
             else if i < length (server_list w1) then
               print_current_state
                 (w1\<lparr>server_list :=
                       (server_list w1)[i := (server_list w1 ! i)
                          \<lparr>active := \<not> active (server_list w1 ! i)\<rparr>],
                     currently_pressed := (currently_pressed w1)(hotkey \<mapsto> True)\<rparr>)
             else (Some IndexError, w1))
          else (None, w1\<lparr>currently_pressed := (currently_pressed w1)(hotkey \<mapsto> False)\<rparr>))"

fun scan_hotkeys ::
  "(string \<Rightarrow> error + bool) \<Rightarrow> nat \<Rightarrow> string list \<Rightarrow> world \<Rightarrow> error option \<times> world" where
  "scan_hotkeys kb i [] w = (None, w)"
| "scan_hotkeys kb i (hotkey # rest) w =
     (case scan_hotkey kb i hotkey w of
        (Some e, w1) \<Rightarrow> (Some e, w1)
      | (None, w1) \<Rightarrow> scan_hotkeys kb (Suc i) rest w1)"

text \<open>
  \<^verbatim>\<open>scan_loop\<close> for as many passes as keyboard snapshots are given (the loop itself runs
  until another thread clears \<^verbatim>\<open>keep_running\<close>); an exception ends it.
\<close>

fun scan_loop :: "(string \<Rightarrow> error + bool) list \<Rightarrow> world \<Rightarrow> error option \<times> world" where
  "scan_loop [] w = (None, w)"
| "scan_loop (kb # kbs) w =
     (case scan_hotkeys kb 0 (hotkey_list w) w of
        (Some e, w1) \<Rightarrow> (Some e, w1)
      | (None, w1) \<Rightarrow> scan_loop kbs w1)"

section \<open>Start-up values\<close>

text \<open>
  A channel as \<^verbatim>\<open>main\<close> builds it from a \<^verbatim>\<open>Remote_Gamepad\<close> with the default host, port and
  colours of \<^verbatim>\<open>config.py\<close>, and the class attributes as the class statement initialises
  them.
\<close>

definition remote_gamepad :: "int \<Rightarrow> string \<Rightarrow> bool \<Rightarrow> InputServerData" where
  "remote_gamepad i u a =
     \<lparr>server = RemoteInputServer ''localhost'' 33010, index = i, active = a,
      rgb_button = \<lparr>uid = u, color_off = [1, 1, 1], color_on = [15, 15, 15]\<rparr>\<rparr>"

definition initial_world :: "InputServerData list \<Rightarrow> world" where
  "initial_world sl =
     \<lparr>server_list = sl, uid_poti = None, upper_threshold = 95, lower_threshold = 5,
      old_position = - 100, old_section = - 100, uid_dict = [],
      button_state_dict = Map.empty, index_dict = Map.empty, hotkey_list = [],
      currently_pressed = Map.empty, set_color_calls = [], stdout = [],
      is_pressed_calls = [], parse_hotkey_calls = []\<rparr>"

section \<open>What the Indicator Reflector is to show\<close>

text \<open>
  The colour a channel contributes, the channels bound to an indicator, the component-wise
  sum over them, and the indicators in the order in which the server list first mentions
  them. \<open>reflector_ready\<close> is the configuration under which the reflector cannot raise:
  every channel's button has a driver object and both its colours have three components.
\<close>

definition shown_color :: "InputServerData \<Rightarrow> int list" where
  "shown_color s = (if active s then color_on (rgb_button s) else color_off (rgb_button s))"

definition bound_channels :: "string \<Rightarrow> InputServerData list \<Rightarrow> InputServerData list" where
  "bound_channels u sl = filter (\<lambda>s. uid (rgb_button s) = u) sl"

definition color_sum :: "string \<Rightarrow> InputServerData list \<Rightarrow> int \<times> int \<times> int" where
  "color_sum u sl =
     (sum_list (map (\<lambda>s. shown_color s ! 0) (bound_channels u sl)),
      sum_list (map (\<lambda>s. shown_color s ! 1) (bound_channels u sl)),
      sum_list (map (\<lambda>s. shown_color s ! 2) (bound_channels u sl)))"

definition insert_key :: "string \<Rightarrow> string list \<Rightarrow> string list" where
  "insert_key u ks = (if u \<in> set ks then ks else ks @ [u])"

definition indicator_ids :: "InputServerData list \<Rightarrow> string list" where
  "indicator_ids sl = fold (\<lambda>s. insert_key (uid (rgb_button s))) sl []"

definition channel_ready :: "(string \<times> BrickletRGBLEDButton) list \<Rightarrow> InputServerData \<Rightarrow> bool" where
  "channel_ready ud s =
     (map_of ud (uid (rgb_button s)) \<noteq> None \<and>
      length (color_on (rgb_button s)) = 3 \<and> length (color_off (rgb_button s)) = 3)"

definition reflector_ready :: "world \<Rightarrow> bool" where
  "reflector_ready w = list_all (channel_ready (uid_dict w)) (server_list w)"

definition plus3 :: "int \<times> int \<times> int \<Rightarrow> int list \<Rightarrow> int list" where
  "plus3 t c = (case t of (x, y, z) \<Rightarrow> [x + c ! 0, y + c ! 1, z + c ! 2])"

definition default_color :: "(string \<times> int list) list \<Rightarrow> string \<Rightarrow> int list" where
  "default_color cd u = (case map_of cd u of None \<Rightarrow> [0, 0, 0] | Some c \<Rightarrow> c)"

text \<open>Two channels on one indicator, the first active, with the driver object registered.\<close>

definition shared_indicator :: world where
  "shared_indicator =
     (initial_world [remote_gamepad 0 ''a'' True, remote_gamepad 1 ''a'' False])
       \<lparr>uid_dict := [(''a'', BrickletRGBLEDButton ''a'')]\<rparr>"

text \<open>
  Three channels with a button each, the first and the last active, under the class
  defaults (thresholds 5 and 95, no position seen yet); the same with the LED driver
  objects registered; and two slider configurations.
\<close>

definition three_channels :: world where
  "three_channels =
     initial_world [remote_gamepad 0 ''a'' True, remote_gamepad 1 ''b'' False,
                    remote_gamepad 2 ''c'' True]"

definition three_buttons :: world where
  "three_buttons =
     three_channels
       \<lparr>uid_dict := [(''a'', BrickletRGBLEDButton ''a''), (''b'', BrickletRGBLEDButton ''b''),
                    (''c'', BrickletRGBLEDButton ''c'')]\<rparr>"

definition equal_thresholds :: Linear_Poti where
  "equal_thresholds =
     \<lparr>poti_uid = Some ''poti'', poti_upper_threshold = 50, poti_lower_threshold = 50\<rparr>"

definition inverted_thresholds :: Linear_Poti where
  "inverted_thresholds =
     \<lparr>poti_uid = Some ''poti'', poti_upper_threshold = 5, poti_lower_threshold = 95\<rparr>"


text \<open>
  Two active channels on one button, as \<^verbatim>\<open>start_RGB_Buttons\<close> registers them (before its
  initial callbacks); the same with an index list that names a channel that does not
  exist; \<open>n\<close> release-edge callbacks in a row; and the value \<^verbatim>\<open>button_state_dict.get(uid, True)\<close>.
\<close>

definition shared_button :: world where
  "shared_button =
     register_buttons 0
       [rgb_button (remote_gamepad 0 ''a'' True), rgb_button (remote_gamepad 1 ''a'' True)]
       (initial_world [remote_gamepad 0 ''a'' True, remote_gamepad 1 ''a'' True])"

definition stale_index :: world where
  "stale_index = shared_button\<lparr>index_dict := (index_dict shared_button)(''a'' \<mapsto> [0, 5, 1])\<rparr>"

fun release_events :: "nat \<Rightarrow> string \<Rightarrow> world \<Rightarrow> world" where
  "release_events 0 u w = w"
| "release_events (Suc n) u w = release_events n u (snd (cb_button True u w))"

definition group_default :: "world \<Rightarrow> string \<Rightarrow> bool" where
  "group_default w u = (case button_state_dict w u of None \<Rightarrow> True | Some b \<Rightarrow> b)"


text \<open>
  For the hotkey claims: a keyboard snapshot \<open>answers\<close> a list of hotkeys when
  \<^verbatim>\<open>is_pressed\<close> raises for none of them; \<open>hotkeys_ready\<close> is the configuration \<^verbatim>\<open>main\<close>
  builds (one hotkey per channel, here pairwise distinct, and a reflector that cannot
  raise); \<open>polls_pressed\<close> says that every snapshot of a trace answers all hotkeys and
  reports \<open>h\<close> pressed. Then one channel whose hotkey is the empty string (the default of
  \<^verbatim>\<open>config.py\<close>), two channels with the hotkeys f1 and f2, and two keyboard snapshots.
\<close>

definition answers :: "(string \<Rightarrow> error + bool) \<Rightarrow> string list \<Rightarrow> bool" where
  "answers kb hs = list_all (\<lambda>h. \<not> isl (kb h)) hs"

definition hotkeys_ready :: "world \<Rightarrow> bool" where
  "hotkeys_ready w =
     (reflector_ready w \<and> distinct (hotkey_list w) \<and>
      length (hotkey_list w) \<le> length (server_list w))"

definition polls_pressed :: "string \<Rightarrow> string list \<Rightarrow> (string \<Rightarrow> error + bool) list \<Rightarrow> bool" where
  "polls_pressed h hs kbs = list_all (\<lambda>kb. answers kb hs \<and> kb h = Inr True) kbs"

definition one_channel :: world where
  "one_channel =
     (initial_world [remote_gamepad 0 ''a'' False])\<lparr>uid_dict := [(''a'', BrickletRGBLEDButton ''a'')]\<rparr>"

definition unbound_hotkey :: world where
  "unbound_hotkey = one_channel\<lparr>hotkey_list := [[]]\<rparr>"

definition two_hotkeys :: world where
  "two_hotkeys =
     (initial_world [remote_gamepad 0 ''a'' False, remote_gamepad 1 ''b'' False])
       \<lparr>uid_dict := [(''a'', BrickletRGBLEDButton ''a''), (''b'', BrickletRGBLEDButton ''b'')],
        hotkey_list := [''f1'', ''f2'']\<rparr>"

definition f1_down :: "string \<Rightarrow> error + bool" where
  "f1_down h = Inr (h = ''f1'')"

definition all_up :: "string \<Rightarrow> error + bool" where
  "all_up h = Inr False"




text \<open>
  Three channels with buttons and the hotkeys f1, f2 and f3; and the state reached from
  there when the slider reports position 4 (below the lower threshold) and the hotkey f1 is
  then pressed.
\<close>

definition three_hotkeys :: world where
  "three_hotkeys = three_buttons\<lparr>hotkey_list := [''f1'', ''f2'', ''f3'']\<rparr>"

definition low_then_hotkey :: world where
  "low_then_hotkey = snd (scan_loop [f1_down] (snd (cb_position 4 30 three_hotkeys)))"

section \<open>Python indexing\<close>

lemma py_index_nonneg: "0 \<le> i \<Longrightarrow> i < int n \<Longrightarrow> py_index n i = Some (nat i)"
  by (simp add: py_index_def)

section \<open>The reflector changes nothing but the effects\<close>

lemma set_colors_only:
  "snd (set_colors cd bd w) = w\<lparr>set_color_calls := set_color_calls (snd (set_colors cd bd w))\<rparr>"
proof (induction bd arbitrary: w)
  case Nil
  show ?case by simp
next
  case (Cons p bd)
  obtain u button where p: "p = (u, button)" by (cases p)
  show ?case
  proof (cases "map_of cd u")
    case None
    then show ?thesis by (simp add: p)
  next
    case (Some c)
    show ?thesis
    proof (cases "length c = 3")
      case True
      let ?w1 = "w\<lparr>set_color_calls := set_color_calls w @ [(button, c ! 0, c ! 1, c ! 2)]\<rparr>"
      have "snd (set_colors cd bd ?w1) =
              ?w1\<lparr>set_color_calls := set_color_calls (snd (set_colors cd bd ?w1))\<rparr>"
        by (rule Cons.IH)
      then show ?thesis using Some True by (simp add: p)
    next
      case False
      then show ?thesis using Some by (simp add: p)
    qed
  qed
qed

lemma color_all_buttons_only:
  "snd (color_all_buttons w) = w\<lparr>set_color_calls := set_color_calls (snd (color_all_buttons w))\<rparr>"
proof (cases "color_loop (uid_dict w) (server_list w) [] []")
  case (Inl e)
  then show ?thesis by (simp add: color_all_buttons_def)
next
  case (Inr r)
  obtain cd bd where "r = (cd, bd)" by (cases r)
  with Inr show ?thesis
    using set_colors_only [of cd bd w] by (simp add: color_all_buttons_def)
qed

lemma print_current_state_only:
  "snd (print_current_state w) =
     w\<lparr>set_color_calls := set_color_calls (snd (print_current_state w)),
       stdout := stdout w @ [Current_state (map (\<lambda>s. (index s, active s)) (server_list w))]\<rparr>"
  unfolding print_current_state_def
  by (subst color_all_buttons_only) simp

lemma print_current_state_fields:
  "server_list (snd (print_current_state w)) = server_list w"
  "button_state_dict (snd (print_current_state w)) = button_state_dict w"
  "index_dict (snd (print_current_state w)) = index_dict w"
  "uid_dict (snd (print_current_state w)) = uid_dict w"
  "currently_pressed (snd (print_current_state w)) = currently_pressed w"
  "hotkey_list (snd (print_current_state w)) = hotkey_list w"
  "is_pressed_calls (snd (print_current_state w)) = is_pressed_calls w"
  by (subst print_current_state_only, simp)+

section \<open>The reflector pushes the sums\<close>

lemma length3: "length (c::int list) = 3 \<Longrightarrow> c = [c ! 0, c ! 1, c ! 2]"
  by (auto simp: length_Suc_conv numeral_3_eq_3)

lemma add_colors3:
  assumes "length a = 3" "length b = 3"
  shows "add_colors a b = [a ! 0 + b ! 0, a ! 1 + b ! 1, a ! 2 + b ! 2]"
proof -
  obtain a0 a1 a2 where a: "a = [a0, a1, a2]" using length3 [OF assms(1)] by blast
  obtain b0 b1 b2 where b: "b = [b0, b1, b2]" using length3 [OF assms(2)] by blast
  show ?thesis by (simp add: a b add_colors_def)
qed

lemma shown_color_length: "channel_ready ud s \<Longrightarrow> length (shown_color s) = 3"
  by (simp add: channel_ready_def shown_color_def)

lemma default_color_length:
  "\<forall>u c. map_of cd u = Some c \<longrightarrow> length c = 3 \<Longrightarrow> length (default_color cd u) = 3"
  by (simp add: default_color_def split: option.splits)

lemma color_sum_Nil: "color_sum u [] = (0, 0, 0)"
  by (simp add: color_sum_def bound_channels_def)

lemma color_sum_Cons:
  "color_sum u (s # sl) =
     (if uid (rgb_button s) = u
      then (case color_sum u sl of (x, y, z) \<Rightarrow>
              (shown_color s ! 0 + x, shown_color s ! 1 + y, shown_color s ! 2 + z))
      else color_sum u sl)"
  by (simp add: color_sum_def bound_channels_def)

lemma color_sum_other:
  "u \<notin> (\<lambda>s. uid (rgb_button s)) ` set sl \<Longrightarrow> color_sum u sl = (0, 0, 0)"
  by (induction sl) (auto simp: color_sum_Nil color_sum_Cons)

lemma color_loop_result:
  assumes "list_all (channel_ready ud) sl"
    and "\<forall>u c. map_of cd u = Some c \<longrightarrow> length c = 3"
  shows "\<exists>cd' bd'. color_loop ud sl cd bd = Inr (cd', bd') \<and>
           map fst cd' = fold (\<lambda>s. insert_key (uid (rgb_button s))) sl (map fst cd) \<and>
           map fst bd' = fold (\<lambda>s. insert_key (uid (rgb_button s))) sl (map fst bd) \<and>
           (\<forall>u. map_of bd' u =
                  (if u \<in> (\<lambda>s. uid (rgb_button s)) ` set sl then map_of ud u else map_of bd u)) \<and>
           (\<forall>u. map_of cd' u =
                  (if u \<in> (\<lambda>s. uid (rgb_button s)) ` set sl
                   then Some (plus3 (color_sum u sl) (default_color cd u))
                   else map_of cd u))"
  using assms
proof (induction sl arbitrary: cd bd)
  case Nil
  show ?case by simp
next
  case (Cons s sl)
  let ?u = "uid (rgb_button s)"
  define c where "c = add_colors (shown_color s) (default_color cd ?u)"
  define cd1 where "cd1 = AList.update ?u c cd"
  from Cons.prems(1) have ready: "channel_ready ud s" and rest: "list_all (channel_ready ud) sl"
    by simp_all
  from ready obtain button where button: "map_of ud ?u = Some button"
    by (auto simp: channel_ready_def)
  define bd1 where "bd1 = AList.update ?u button bd"
  have len_s: "length (shown_color s) = 3" using ready by (rule shown_color_length)
  have len_d: "length (default_color cd v) = 3" for v
    using Cons.prems(2) by (rule default_color_length)
  have c3: "c = [shown_color s ! 0 + default_color cd ?u ! 0,
                 shown_color s ! 1 + default_color cd ?u ! 1,
                 shown_color s ! 2 + default_color cd ?u ! 2]"
    unfolding c_def using len_s len_d by (rule add_colors3)
  have len_cd1: "\<forall>v c. map_of cd1 v = Some c \<longrightarrow> length c = 3"
    using Cons.prems(2) c3 by (auto simp: cd1_def AList.update_conv')
  from Cons.IH [OF rest len_cd1, of bd1]
  obtain cd' bd' where res: "color_loop ud sl cd1 bd1 = Inr (cd', bd')"
    and k1: "map fst cd' = fold (\<lambda>s. insert_key (uid (rgb_button s))) sl (map fst cd1)"
    and k2: "map fst bd' = fold (\<lambda>s. insert_key (uid (rgb_button s))) sl (map fst bd1)"
    and m2: "\<And>v. map_of bd' v =
               (if v \<in> (\<lambda>s. uid (rgb_button s)) ` set sl then map_of ud v else map_of bd1 v)"
    and m1: "\<And>v. map_of cd' v =
               (if v \<in> (\<lambda>s. uid (rgb_button s)) ` set sl
                then Some (plus3 (color_sum v sl) (default_color cd1 v))
                else map_of cd1 v)"
    by blast
  have step: "color_loop ud (s # sl) cd bd = Inr (cd', bd')"
    using res button
    by (simp add: shown_color_def default_color_def Let_def c_def cd1_def bd1_def)
  have keys1: "map fst cd1 = insert_key ?u (map fst cd)"
    by (simp add: cd1_def AList.update_keys insert_key_def)
  have keys2: "map fst bd1 = insert_key ?u (map fst bd)"
    by (simp add: bd1_def AList.update_keys insert_key_def)
  have at_u: "map_of cd1 ?u = Some c" and du: "default_color cd1 ?u = c"
    by (simp_all add: cd1_def default_color_def AList.update_conv')
  have off_u: "map_of cd1 v = map_of cd v" "default_color cd1 v = default_color cd v"
    if "v \<noteq> ?u" for v
    using that by (simp_all add: cd1_def default_color_def AList.update_conv')
  have v1: "map_of cd' v =
              (if v \<in> (\<lambda>s. uid (rgb_button s)) ` set (s # sl)
               then Some (plus3 (color_sum v (s # sl)) (default_color cd v))
               else map_of cd v)" for v
  proof (cases "v = ?u")
    case True
    obtain x y z where xyz: "color_sum ?u sl = (x, y, z)" by (cases "color_sum ?u sl") auto
    have "map_of cd' ?u = Some (plus3 (color_sum ?u (s # sl)) (default_color cd ?u))"
    proof (cases "?u \<in> (\<lambda>s. uid (rgb_button s)) ` set sl")
      case In: True
      have "map_of cd' ?u = Some (plus3 (x, y, z) c)"
        using In by (simp add: m1 du xyz)
      then show ?thesis
        by (simp add: c3 color_sum_Cons xyz plus3_def)
    next
      case Out: False
      have zero: "color_sum ?u sl = (0, 0, 0)" using Out by (rule color_sum_other)
      have "map_of cd' ?u = Some c"
        using Out by (simp add: m1 at_u)
      then show ?thesis
        by (simp add: c3 color_sum_Cons zero plus3_def)
    qed
    then show ?thesis using True by simp
  next
    case False
    then show ?thesis
      by (simp add: m1 off_u color_sum_Cons)
  qed
  have v2: "map_of bd' v =
              (if v \<in> (\<lambda>s. uid (rgb_button s)) ` set (s # sl) then map_of ud v else map_of bd v)"
    for v
    using button by (simp add: m2 bd1_def AList.update_conv')
  show ?case
    using step k1 k2 v1 v2 by (simp add: keys1 keys2)
qed


lemma alist_by_keys:
  "distinct (map fst al) \<Longrightarrow> map (\<lambda>k. (k, the (map_of al k))) (map fst al) = al"
proof (induction al)
  case Nil
  show ?case by simp
next
  case (Cons p al)
  define f where "f = (\<lambda>k. (k, the (map_of (p # al) k)))"
  have same: "f k = (k, the (map_of al k))" if "k \<in> set (map fst al)" for k
    using that Cons.prems by (cases p) (auto simp: f_def)
  have "map f (map fst al) = map (\<lambda>k. (k, the (map_of al k))) (map fst al)"
    by (rule map_cong [OF refl]) (simp only: same)
  also have "\<dots> = al"
    using Cons by simp
  finally have rest: "map f (map fst al) = al" .
  have first: "f (fst p) = p"
    by (cases p) (simp add: f_def)
  have "map f (map fst (p # al)) = f (fst p) # map f (map fst al)"
    by simp
  then have "map f (map fst (p # al)) = p # al"
    by (simp only: rest first)
  then show ?case by (simp only: f_def)
qed

lemma set_colors_ok:
  assumes "\<forall>u \<in> set ks. \<exists>c. map_of cd u = Some c \<and> length c = 3"
  shows "set_colors cd (map (\<lambda>u. (u, f u)) ks) w =
           (None, w\<lparr>set_color_calls := set_color_calls w @
              map (\<lambda>u. (f u, the (map_of cd u) ! 0, the (map_of cd u) ! 1, the (map_of cd u) ! 2)) ks\<rparr>)"
  using assms
proof (induction ks arbitrary: w)
  case Nil
  show ?case by simp
next
  case (Cons k ks)
  from Cons.prems obtain c where c: "map_of cd k = Some c" "length c = 3" by auto
  from Cons.prems have rest: "\<forall>u \<in> set ks. \<exists>c. map_of cd u = Some c \<and> length c = 3" by simp
  show ?case
    by (simp add: c Cons.IH [OF rest])
qed

lemma insert_key_fold_distinct:
  "distinct ks \<Longrightarrow> distinct (fold (\<lambda>s. insert_key (uid (rgb_button s))) sl ks)"
  by (induction sl arbitrary: ks) (simp_all add: insert_key_def)

lemma insert_key_fold_set:
  "set (fold (\<lambda>s. insert_key (uid (rgb_button s))) sl ks) =
     set ks \<union> (\<lambda>s. uid (rgb_button s)) ` set sl"
  by (induction sl arbitrary: ks) (auto simp: insert_key_def)

lemma color_all_buttons_result:
  assumes "reflector_ready w"
  shows "color_all_buttons w =
           (None, w\<lparr>set_color_calls := set_color_calls w @
              map (\<lambda>u. (the (map_of (uid_dict w) u), color_sum u (server_list w)))
                  (indicator_ids (server_list w))\<rparr>)"
proof -
  let ?sl = "server_list w"
  let ?ud = "uid_dict w"
  let ?ids = "indicator_ids ?sl"
  have ready: "list_all (channel_ready ?ud) ?sl"
    using assms by (simp add: reflector_ready_def)
  have empty: "\<forall>u c. map_of ([] :: (string \<times> int list) list) u = Some c \<longrightarrow> length c = 3"
    by simp
  from color_loop_result [OF ready empty, of "[]"]
  obtain cd' bd' where res: "color_loop ?ud ?sl [] [] = Inr (cd', bd')"
    and k2: "map fst bd' = ?ids"
    and m2: "\<And>v. map_of bd' v =
               (if v \<in> (\<lambda>s. uid (rgb_button s)) ` set ?sl then map_of ?ud v else None)"
    and m1: "\<And>v. map_of cd' v =
               (if v \<in> (\<lambda>s. uid (rgb_button s)) ` set ?sl
                then Some (plus3 (color_sum v ?sl) (default_color [] v))
                else None)"
    by (auto simp: indicator_ids_def)
  have ids_set: "set ?ids = (\<lambda>s. uid (rgb_button s)) ` set ?sl"
    by (simp add: indicator_ids_def insert_key_fold_set)
  have "distinct (map fst bd')"
    by (simp add: k2 indicator_ids_def insert_key_fold_distinct)
  then have "map (\<lambda>k. (k, the (map_of bd' k))) (map fst bd') = bd'"
    by (rule alist_by_keys)
  moreover have "map (\<lambda>k. (k, the (map_of bd' k))) ?ids =
                 map (\<lambda>u. (u, the (map_of ?ud u))) ?ids"
    by (rule map_cong) (simp_all add: m2 ids_set)
  ultimately have bd': "bd' = map (\<lambda>u. (u, the (map_of ?ud u))) ?ids"
    by (simp add: k2)
  have col: "map_of cd' u = Some (plus3 (color_sum u ?sl) [0, 0, 0])" if "u \<in> set ?ids" for u
    using that ids_set by (simp add: m1 default_color_def)
  have ok: "\<forall>u \<in> set ?ids. \<exists>c. map_of cd' u = Some c \<and> length c = 3"
    using col by (auto simp: plus3_def split: prod.splits)
  have pushes: "map (\<lambda>u. (the (map_of ?ud u), the (map_of cd' u) ! 0, the (map_of cd' u) ! 1,
                       the (map_of cd' u) ! 2)) ?ids =
                map (\<lambda>u. (the (map_of ?ud u), color_sum u ?sl)) ?ids"
    using col by (intro map_cong) (auto simp: plus3_def split: prod.splits)
  show ?thesis
    unfolding color_all_buttons_def res
    using pushes by (simp add: bd' set_colors_ok [OF ok])
qed

section \<open>Claims about the Indicator Reflector\<close>

text \<open>
  C9. When every channel's button has a driver object and three-component colours, one
  call of \<^verbatim>\<open>color_all_buttons\<close> raises nothing and makes exactly one \<^verbatim>\<open>set_color\<close> call per
  indicator identity (each identity of the server list once, in order of first mention);
  the colour pushed to an identity is the component-wise sum, not clamped, over the
  channels bound to it of the on-colour of an active channel and the off-colour of an
  inactive one. With on-colour (15,15,15) and off-colour (1,1,1), one active and one
  inactive channel on the same indicator give (16,16,16).
\<close>

theorem color_all_buttons_pushes_sums:
  assumes "reflector_ready w"
  shows "color_all_buttons w =
           (None, w\<lparr>set_color_calls := set_color_calls w @
              map (\<lambda>u. (the (map_of (uid_dict w) u), color_sum u (server_list w)))
                  (indicator_ids (server_list w))\<rparr>) \<and>
         distinct (indicator_ids (server_list w)) \<and>
         set (indicator_ids (server_list w)) = (\<lambda>s. uid (rgb_button s)) ` set (server_list w) \<and>
         color_sum ''a'' [remote_gamepad 0 ''a'' True, remote_gamepad 1 ''a'' False] = (16, 16, 16)"
proof -
  have "distinct (indicator_ids (server_list w))"
    by (simp add: indicator_ids_def insert_key_fold_distinct)
  moreover have "set (indicator_ids (server_list w)) =
                   (\<lambda>s. uid (rgb_button s)) ` set (server_list w)"
    by (simp add: indicator_ids_def insert_key_fold_set)
  moreover have "color_sum ''a'' [remote_gamepad 0 ''a'' True, remote_gamepad 1 ''a'' False] =
                   (16, 16, 16)"
    by (simp add: color_sum_def bound_channels_def shown_color_def remote_gamepad_def)
  ultimately show ?thesis
    using color_all_buttons_result [OF assms] by simp
qed

theorem color_all_buttons_pushes_sums_witness:
  "reflector_ready shared_indicator \<and>
   color_all_buttons shared_indicator =
     (None, shared_indicator\<lparr>set_color_calls := [(BrickletRGBLEDButton ''a'', 16, 16, 16)]\<rparr>)"
proof -
  have ready: "reflector_ready shared_indicator"
    by (simp add: reflector_ready_def channel_ready_def shared_indicator_def
        initial_world_def remote_gamepad_def)
  have ids: "indicator_ids [remote_gamepad 0 ''a'' True, remote_gamepad 1 ''a'' False] = [''a'']"
    by (simp add: indicator_ids_def insert_key_def remote_gamepad_def)
  have sl: "server_list shared_indicator =
              [remote_gamepad 0 ''a'' True, remote_gamepad 1 ''a'' False]"
    by (simp add: shared_indicator_def initial_world_def)
  have ud: "map_of (uid_dict shared_indicator) ''a'' = Some (BrickletRGBLEDButton ''a'')"
    by (simp add: shared_indicator_def)
  have calls: "set_color_calls shared_indicator = []"
    by (simp add: shared_indicator_def initial_world_def)
  from color_all_buttons_pushes_sums [OF ready]
  have pushed: "color_all_buttons shared_indicator =
          (None, shared_indicator\<lparr>set_color_calls := set_color_calls shared_indicator @
             map (\<lambda>u. (the (map_of (uid_dict shared_indicator) u),
                        color_sum u (server_list shared_indicator)))
                 (indicator_ids (server_list shared_indicator))\<rparr>)"
    and sum: "color_sum ''a'' [remote_gamepad 0 ''a'' True, remote_gamepad 1 ''a'' False] =
                (16, 16, 16)"
    by simp_all
  have "color_all_buttons shared_indicator =
          (None, shared_indicator\<lparr>set_color_calls := [(BrickletRGBLEDButton ''a'', 16, 16, 16)]\<rparr>)"
    unfolding pushed by (simp add: sl ids ud calls sum)
  with ready show ?thesis by simp
qed

section \<open>Claims about the Position Router\<close>

lemmas three_defs = three_channels_def initial_world_def remote_gamepad_def

lemma one_section_only_frame:
  assumes "0 \<le> k" "k < int (length (server_list w))"
  shows "\<exists>sl' m. length sl' = length (server_list w) \<and>
           one_section_only k w =
             (None, w\<lparr>server_list := sl', stdout := stdout w @ [Gamepad_active m]\<rparr>)"
proof -
  let ?sl = "set_all False (server_list w)"
  have n: "length ?sl = length (server_list w)" by (simp add: set_all_def)
  have "py_index (length ?sl) (k - 1) \<noteq> None"
    using assms n by (simp add: py_index_def)
  then obtain j where j: "py_index (length ?sl) (k - 1) = Some j"
    by blast
  let ?sl' = "?sl[j := (?sl ! j)\<lparr>active := True\<rparr>]"
  have k: "py_index (length ?sl) k = Some (nat k)"
    using assms n by (simp add: py_index_def)
  have "one_section_only k w =
          (None, w\<lparr>server_list := ?sl', stdout := stdout w @ [Gamepad_active (index (?sl' ! nat k))]\<rparr>)"
    by (simp add: one_section_only_def Let_def j k)
  moreover have "length ?sl' = length (server_list w)" using n by simp
  ultimately show ?thesis by blast
qed

text \<open>
  In the single-section branch the channel switched on is the one before the section's own,
  counting cyclically (section 0 switches the last channel on), and the message names the
  section's own channel.
\<close>

lemma one_section_only_activates:
  assumes "0 \<le> k" and "k < int (length (server_list w))"
  shows "fst (one_section_only k w) = None \<and>
         map active (server_list (snd (one_section_only k w))) =
           (replicate (length (server_list w)) False)
             [nat ((k - 1) mod int (length (server_list w))) := True] \<and>
         stdout (snd (one_section_only k w)) =
           stdout w @ [Gamepad_active (index (server_list w ! nat k))]"
proof -
  let ?n = "length (server_list w)"
  let ?sl = "set_all False (server_list w)"
  have n: "length ?sl = ?n" by (simp add: set_all_def)
  have off: "map active ?sl = replicate ?n False"
    by (simp add: set_all_def comp_def map_replicate_const)
  have j: "py_index (length ?sl) (k - 1) = Some (nat ((k - 1) mod int ?n))"
  proof (cases "k = 0")
    case True
    then have "(k - 1) mod int ?n = int ?n - 1" using assms(2)
      by (simp add: zmod_minus1)
    moreover have "py_index ?n (- 1) = Some (nat (int ?n - 1))"
      using True assms(2) unfolding py_index_def by (auto simp: Suc_le_eq)
    ultimately show ?thesis using True by (simp only: n) simp
  next
    case False
    then have "(k - 1) mod int ?n = k - 1" using assms by simp
    then show ?thesis using False assms by (simp add: py_index_def n)
  qed
  let ?j = "nat ((k - 1) mod int ?n)"
  let ?sl' = "?sl[?j := (?sl ! ?j)\<lparr>active := True\<rparr>]"
  have k: "py_index (length ?sl) k = Some (nat k)"
    using assms n by (simp add: py_index_def)
  have run: "one_section_only k w =
          (None, w\<lparr>server_list := ?sl', stdout := stdout w @ [Gamepad_active (index (?sl' ! nat k))]\<rparr>)"
    by (simp add: one_section_only_def Let_def j k)
  have nk: "nat k < ?n" using assms by simp
  have idx: "index (?sl' ! nat k) = index (server_list w ! nat k)"
    using nk by (cases "nat k = ?j") (simp_all add: set_all_def)
  have "map active ?sl' = (replicate ?n False)[?j := True]"
    by (simp add: map_update off)
  then show ?thesis by (simp add: run idx)
qed

lemma cb_position_set_color_calls:
  "set_color_calls (snd (cb_position position section_width w)) = set_color_calls w"
proof -
  let ?k = "\<lfloor>real_of_int (position - lower_threshold w) / section_width\<rfloor>"
  show ?thesis
  proof (cases "0 \<le> ?k \<and> ?k < int (length (server_list w))")
    case True
    then obtain sl' m where
      "one_section_only ?k w =
         (None, w\<lparr>server_list := sl', stdout := stdout w @ [Gamepad_active m]\<rparr>)"
      using one_section_only_frame [of ?k w] by blast
    then show ?thesis using True by (simp add: cb_position_def Let_def)
  next
    case False
    then show ?thesis by (auto simp: cb_position_def Let_def)
  qed
qed

lemma cb_position_processed:
  assumes "abs (position - old_position w) > 2" and "section_width \<noteq> 0"
    and "\<lfloor>real_of_int (position - lower_threshold w) / section_width\<rfloor> \<noteq> old_section w"
  shows "\<exists>sl' m. (\<forall>l. m \<noteq> Current_state l) \<and> length sl' = length (server_list w) \<and>
           cb_position position section_width w =
             (None, w\<lparr>server_list := sl', stdout := stdout w @ [m],
                       old_section := \<lfloor>real_of_int (position - lower_threshold w) / section_width\<rfloor>,
                       old_position := position\<rparr>)"
proof -
  let ?k = "\<lfloor>real_of_int (position - lower_threshold w) / section_width\<rfloor>"
  show ?thesis
  proof (cases "0 \<le> ?k \<and> ?k < int (length (server_list w))")
    case True
    then obtain sl' m where len: "length sl' = length (server_list w)" and
      one: "one_section_only ?k w =
         (None, w\<lparr>server_list := sl', stdout := stdout w @ [Gamepad_active m]\<rparr>)"
      using one_section_only_frame [of ?k w] by blast
    have "cb_position position section_width w =
             (None, w\<lparr>server_list := sl', stdout := stdout w @ [Gamepad_active m],
                       old_section := ?k, old_position := position\<rparr>)"
      using True assms one by (simp add: cb_position_def Let_def)
    with len show ?thesis by blast
  next
    case False
    show ?thesis
    proof (cases "?k < 0")
      case True
      have "cb_position position section_width w =
             (None, w\<lparr>server_list := set_all False (server_list w),
                       stdout := stdout w @ [No_gamepads_active],
                       old_section := ?k, old_position := position\<rparr>)"
        using True assms by (simp add: cb_position_def Let_def)
      moreover have "length (set_all False (server_list w)) = length (server_list w)"
        by (simp add: set_all_def)
      ultimately show ?thesis by blast
    next
      case nonneg: False
      with False have "?k \<ge> int (length (server_list w))" by simp
      then have "cb_position position section_width w =
             (None, w\<lparr>server_list := set_all True (server_list w),
                       stdout := stdout w @ [All_gamepads_active],
                       old_section := ?k, old_position := position\<rparr>)"
        using nonneg assms by (simp add: cb_position_def Let_def)
      moreover have "length (set_all True (server_list w)) = length (server_list w)"
        by (simp add: set_all_def)
      ultimately show ?thesis by blast
    qed
  qed
qed

text \<open>
  C1. The claim says that in the single-section branch channel \<open>k\<close> is the one activated
  for section \<open>k\<close>. The code assigns \<^verbatim>\<open>server_list[section - 1].active = True\<close> and then
  prints the index of \<^verbatim>\<open>server_list[section]\<close>. With thresholds 5 and 95 and three channels,
  position 50 is section 1: channel 0 is activated, channel 1 is not, and the message names
  gamepad 1. Position 20 is section 0: index \<open>-1\<close> activates the last channel, and the message
  names gamepad 0.
\<close>

theorem cb_position_activates_previous_channel: 
  "fst (cb_position 50 30 three_channels) = None \<and>
   old_section (snd (cb_position 50 30 three_channels)) = 1 \<and>
   map active (server_list (snd (cb_position 50 30 three_channels))) = [True, False, False] \<and>
   stdout (snd (cb_position 50 30 three_channels)) = [Gamepad_active 1] \<and>
   fst (cb_position 20 30 three_channels) = None \<and>
   old_section (snd (cb_position 20 30 three_channels)) = 0 \<and>
   map active (server_list (snd (cb_position 20 30 three_channels))) = [False, False, True] \<and>
   stdout (snd (cb_position 20 30 three_channels)) = [Gamepad_active 0]"
  by (simp add: cb_position_def one_section_only_def set_all_def py_index_def three_defs)

text \<open>
  C2. The claim says that the position callback calls the Indicator Reflector after it has
  changed the active flags. \<^verbatim>\<open>cb_position\<close> has no such call, although both other routers
  (\<^verbatim>\<open>cb_button\<close> and \<^verbatim>\<open>scan_loop\<close>) call \<^verbatim>\<open>print_current_state\<close> after changing a flag. With
  three channels and their LED drivers registered, position 50 passes the debounce check and
  changes the section and the flags, yet no \<^verbatim>\<open>set_color\<close> call is made; a call of the
  reflector on the new state would have pushed three colours.
\<close>

theorem cb_position_leaves_indicators_stale:
  "fst (cb_position 50 30 three_buttons) = None \<and>
   map active (server_list three_buttons) = [True, False, True] \<and>
   map active (server_list (snd (cb_position 50 30 three_buttons))) = [True, False, False] \<and>
   set_color_calls (snd (cb_position 50 30 three_buttons)) = set_color_calls three_buttons \<and>
   set_color_calls (snd (color_all_buttons (snd (cb_position 50 30 three_buttons)))) =
     set_color_calls three_buttons @
       [(BrickletRGBLEDButton ''a'', 15, 15, 15), (BrickletRGBLEDButton ''b'', 1, 1, 1),
        (BrickletRGBLEDButton ''c'', 1, 1, 1)]"
  by (simp add: cb_position_def one_section_only_def set_all_def py_index_def three_defs
      three_buttons_def color_all_buttons_def add_colors_def Let_def)

text \<open>
  The same holds for every sample: the position callback leaves the list of \<^verbatim>\<open>set_color\<close>
  calls as it was. A sample that passes the debounce check and changes the applied section
  raises nothing, updates the debouncing memory and prints exactly one message, which is
  not the status line of \<^verbatim>\<open>print_current_state\<close>.
\<close>

theorem cb_position_never_sets_colors:
  "set_color_calls (snd (cb_position position section_width w)) = set_color_calls w \<and>
   (abs (position - old_position w) > 2 \<and> section_width \<noteq> 0 \<and>
    \<lfloor>real_of_int (position - lower_threshold w) / section_width\<rfloor> \<noteq> old_section w \<longrightarrow>
      fst (cb_position position section_width w) = None \<and>
      old_position (snd (cb_position position section_width w)) = position \<and>
      old_section (snd (cb_position position section_width w)) =
        \<lfloor>real_of_int (position - lower_threshold w) / section_width\<rfloor> \<and>
      length (stdout (snd (cb_position position section_width w))) = Suc (length (stdout w)) \<and>
      (\<forall>l. last (stdout (snd (cb_position position section_width w))) \<noteq> Current_state l))"
proof (intro conjI impI)
  show "set_color_calls (snd (cb_position position section_width w)) = set_color_calls w"
    by (rule cb_position_set_color_calls)
next
  assume h: "abs (position - old_position w) > 2 \<and> section_width \<noteq> 0 \<and>
    \<lfloor>real_of_int (position - lower_threshold w) / section_width\<rfloor> \<noteq> old_section w"
  then obtain sl' m where m: "\<forall>l. m \<noteq> Current_state l" and
    r: "cb_position position section_width w =
             (None, w\<lparr>server_list := sl', stdout := stdout w @ [m],
                       old_section := \<lfloor>real_of_int (position - lower_threshold w) / section_width\<rfloor>,
                       old_position := position\<rparr>)"
    using cb_position_processed [of position w section_width] by blast
  show "fst (cb_position position section_width w) = None" by (simp add: r)
  show "old_position (snd (cb_position position section_width w)) = position" by (simp add: r)
  show "old_section (snd (cb_position position section_width w)) =
        \<lfloor>real_of_int (position - lower_threshold w) / section_width\<rfloor>" by (simp add: r)
  show "length (stdout (snd (cb_position position section_width w))) = Suc (length (stdout w))"
    by (simp add: r)
  show "\<forall>l. last (stdout (snd (cb_position position section_width w))) \<noteq> Current_state l"
    using m by (simp add: r)
qed

theorem cb_position_never_sets_colors_witness:
  "set_color_calls (snd (cb_position 50 30 three_buttons)) = [] \<and>
   fst (cb_position 50 30 three_buttons) = None \<and>
   old_position (snd (cb_position 50 30 three_buttons)) = 50 \<and>
   old_section (snd (cb_position 50 30 three_buttons)) = 1 \<and>
   length (stdout (snd (cb_position 50 30 three_buttons))) = 1"
proof -
  have b: "lower_threshold three_buttons = 5" "old_position three_buttons = - 100"
    "old_section three_buttons = - 100"
    "set_color_calls three_buttons = []" "stdout three_buttons = []"
    by (simp_all add: three_defs three_buttons_def)
  show ?thesis
    using cb_position_never_sets_colors [of 50 30 three_buttons] by (simp add: b)
qed

text \<open>
  C6. The claim says that equal thresholds are refused at start-up. The assertion is
  \<^verbatim>\<open>upper_threshold >= lower_threshold\<close>, so equal thresholds pass it; the section width is
  then zero, and the first position callback raises \<^verbatim>\<open>ZeroDivisionError\<close> (the channels are
  untouched). Inverted thresholds do fail the assertion.
\<close>

theorem start_LinearPoti_equal_thresholds:
  "fst (start_LinearPoti equal_thresholds 50 [] three_channels) = Some ZeroDivisionError \<and>
   server_list (snd (start_LinearPoti equal_thresholds 50 [] three_channels)) = server_list three_channels \<and>
   fst (start_LinearPoti inverted_thresholds 50 [] three_channels) = Some AssertionError"
  by (simp add: start_LinearPoti_def equal_thresholds_def inverted_thresholds_def cb_position_def three_defs)


lemma low_then_hotkey_facts:
  "map active (server_list (snd (cb_position 4 30 three_hotkeys))) = [False, False, False]"
  "old_position low_then_hotkey = 4"
  "old_section low_then_hotkey = - 1"
  "lower_threshold low_then_hotkey = 5"
  "upper_threshold low_then_hotkey = 95"
  "map active (server_list low_then_hotkey) = [True, False, False]"
  by (simp_all add: low_then_hotkey_def three_hotkeys_def three_buttons_def three_defs
      cb_position_def set_all_def f1_down_def scan_hotkey_def Let_def print_current_state_def
      color_all_buttons_def add_colors_def)

text \<open>
  C8, as the claim states it, fails. The slider is at position 4 (section \<open>-1\<close>, all
  channels off), the hotkey f1 then switches channel 0 on, and the slider moves to position
  0. The sample passes the debounce check, but its section is the one applied last, so the
  callback returns without touching the flags: at position 0 channel 0 is still active.
\<close>

theorem cb_position_same_section_example:
  "length (server_list low_then_hotkey) = 3 \<and>
   lower_threshold low_then_hotkey = 5 \<and> upper_threshold low_then_hotkey = 95 \<and>
   abs (0 - old_position low_then_hotkey) > 2 \<and>
   map active (server_list (snd (cb_position 0 30 low_then_hotkey))) = [True, False, False]"
proof -
  have "cb_position 0 30 low_then_hotkey = (None, low_then_hotkey)"
    by (simp add: cb_position_def low_then_hotkey_facts)
  moreover have "length (server_list low_then_hotkey) = 3"
    using arg_cong [OF low_then_hotkey_facts(6), of length] by simp
  ultimately show ?thesis by (simp add: low_then_hotkey_facts)
qed

text \<open>
  C8, amended. With thresholds 5 and 95 and three channels the section width is 30. A sample
  that passes the debounce check and whose section differs from the one applied last leaves
  all channels inactive at position 0, all active at position 95 and exactly one (the first)
  active at position 50, and it is recorded: the callback stores its position and section.
  After any such sample a sample within 2 units of it, so in particular one that differs by
  1, changes nothing at all. A sample within 2 units of the recorded position, or whose
  section is the one applied last, changes nothing either.
\<close>

theorem cb_position_sections_and_debounce:
  assumes "length (server_list w) = 3" and "lower_threshold w = 5" and "upper_threshold w = 95"
    and "section_width =
           real_of_int (upper_threshold w - lower_threshold w) / real (length (server_list w))"
  shows "section_width = 30 \<and>
    (abs (0 - old_position w) > 2 \<and> old_section w \<noteq> - 1 \<longrightarrow>
       fst (cb_position 0 section_width w) = None \<and>
       map active (server_list (snd (cb_position 0 section_width w))) = [False, False, False] \<and>
       old_position (snd (cb_position 0 section_width w)) = 0 \<and>
       old_section (snd (cb_position 0 section_width w)) = - 1) \<and>
    (abs (95 - old_position w) > 2 \<and> old_section w \<noteq> 3 \<longrightarrow>
       fst (cb_position 95 section_width w) = None \<and>
       map active (server_list (snd (cb_position 95 section_width w))) = [True, True, True] \<and>
       old_position (snd (cb_position 95 section_width w)) = 95 \<and>
       old_section (snd (cb_position 95 section_width w)) = 3) \<and>
    (abs (50 - old_position w) > 2 \<and> old_section w \<noteq> 1 \<longrightarrow>
       fst (cb_position 50 section_width w) = None \<and>
       length (filter active (server_list (snd (cb_position 50 section_width w)))) = 1 \<and>
       map active (server_list (snd (cb_position 50 section_width w))) = [True, False, False] \<and>
       old_position (snd (cb_position 50 section_width w)) = 50 \<and>
       old_section (snd (cb_position 50 section_width w)) = 1) \<and>
    (abs (position - old_position w) > 2 \<and>
     \<lfloor>real_of_int (position - 5) / 30\<rfloor> \<noteq> old_section w \<longrightarrow>
       fst (cb_position position section_width w) = None \<and>
       old_position (snd (cb_position position section_width w)) = position \<and>
       old_section (snd (cb_position position section_width w)) =
         \<lfloor>real_of_int (position - 5) / 30\<rfloor> \<and>
       (\<forall>later. abs (later - position) \<le> 2 \<longrightarrow>
          cb_position later section_width (snd (cb_position position section_width w)) =
            (None, snd (cb_position position section_width w)))) \<and>
    (abs (position - old_position w) \<le> 2 \<or>
     \<lfloor>real_of_int (position - 5) / 30\<rfloor> = old_section w \<longrightarrow>
       cb_position position section_width w = (None, w))"
proof -
  from assms(1) obtain a b c where sl: "server_list w = [a, b, c]"
    by (auto simp: length_Suc_conv numeral_3_eq_3)
  have sw: "section_width = 30" using assms by simp
  have p0: "abs (0 - old_position w) > 2 \<and> old_section w \<noteq> - 1 \<longrightarrow>
       fst (cb_position 0 section_width w) = None \<and>
       map active (server_list (snd (cb_position 0 section_width w))) = [False, False, False] \<and>
       old_position (snd (cb_position 0 section_width w)) = 0 \<and>
       old_section (snd (cb_position 0 section_width w)) = - 1"
    using assms(2) by (simp add: cb_position_def sw sl set_all_def)
  have p95: "abs (95 - old_position w) > 2 \<and> old_section w \<noteq> 3 \<longrightarrow>
       fst (cb_position 95 section_width w) = None \<and>
       map active (server_list (snd (cb_position 95 section_width w))) = [True, True, True] \<and>
       old_position (snd (cb_position 95 section_width w)) = 95 \<and>
       old_section (snd (cb_position 95 section_width w)) = 3"
    using assms(2) by (simp add: cb_position_def sw sl set_all_def)
  have p50: "abs (50 - old_position w) > 2 \<and> old_section w \<noteq> 1 \<longrightarrow>
       fst (cb_position 50 section_width w) = None \<and>
       length (filter active (server_list (snd (cb_position 50 section_width w)))) = 1 \<and>
       map active (server_list (snd (cb_position 50 section_width w))) = [True, False, False] \<and>
       old_position (snd (cb_position 50 section_width w)) = 50 \<and>
       old_section (snd (cb_position 50 section_width w)) = 1"
    using assms(2)
    by (simp add: cb_position_def sw sl set_all_def one_section_only_def py_index_def)
  have rec: "abs (position - old_position w) > 2 \<and>
     \<lfloor>real_of_int (position - 5) / 30\<rfloor> \<noteq> old_section w \<longrightarrow>
       fst (cb_position position section_width w) = None \<and>
       old_position (snd (cb_position position section_width w)) = position \<and>
       old_section (snd (cb_position position section_width w)) =
         \<lfloor>real_of_int (position - 5) / 30\<rfloor> \<and>
       (\<forall>later. abs (later - position) \<le> 2 \<longrightarrow>
          cb_position later section_width (snd (cb_position position section_width w)) =
            (None, snd (cb_position position section_width w)))"
  proof
    assume h: "abs (position - old_position w) > 2 \<and>
      \<lfloor>real_of_int (position - 5) / 30\<rfloor> \<noteq> old_section w"
    have "\<lfloor>real_of_int (position - lower_threshold w) / section_width\<rfloor> \<noteq> old_section w"
      using h by (simp add: sw assms(2))
    with h obtain sl' m where
      r: "cb_position position section_width w =
             (None, w\<lparr>server_list := sl', stdout := stdout w @ [m],
                       old_section := \<lfloor>real_of_int (position - lower_threshold w) / section_width\<rfloor>,
                       old_position := position\<rparr>)"
      using cb_position_processed [of position w section_width] sw by auto
    have deb: "cb_position later section_width w' = (None, w')"
      if "abs (later - position) \<le> 2" "old_position w' = position" for later w'
      using that by (simp add: cb_position_def)
    show "fst (cb_position position section_width w) = None \<and>
       old_position (snd (cb_position position section_width w)) = position \<and>
       old_section (snd (cb_position position section_width w)) =
         \<lfloor>real_of_int (position - 5) / 30\<rfloor> \<and>
       (\<forall>later. abs (later - position) \<le> 2 \<longrightarrow>
          cb_position later section_width (snd (cb_position position section_width w)) =
            (None, snd (cb_position position section_width w)))"
      unfolding r using deb by (simp add: sw assms(2))
  qed
  have noop: "abs (position - old_position w) \<le> 2 \<or>
     \<lfloor>real_of_int (position - 5) / 30\<rfloor> = old_section w \<longrightarrow>
       cb_position position section_width w = (None, w)"
    using assms(2) by (auto simp: cb_position_def sw)
  from sw p0 p95 p50 rec noop show ?thesis by blast
qed

theorem cb_position_sections_and_debounce_witness:
  "map active (server_list three_channels) = [True, False, True] \<and>
   map active (server_list (snd (cb_position 0 30 three_channels))) = [False, False, False] \<and>
   map active (server_list (snd (cb_position 95 30 three_channels))) = [True, True, True] \<and>
   map active (server_list (snd (cb_position 50 30 three_channels))) = [True, False, False] \<and>
   old_position (snd (cb_position 50 30 three_channels)) = 50 \<and>
   cb_position 51 30 (snd (cb_position 50 30 three_channels)) =
     (None, snd (cb_position 50 30 three_channels)) \<and>
   cb_position (- 99) 30 three_channels = (None, three_channels)"
proof -
  have h: "length (server_list three_channels) = 3" "lower_threshold three_channels = 5"
    "upper_threshold three_channels = 95"
    "(30::real) = real_of_int (upper_threshold three_channels - lower_threshold three_channels)
        / real (length (server_list three_channels))"
    by (simp_all add: three_defs)
  have o: "old_position three_channels = - 100" "old_section three_channels = - 100"
    "map active (server_list three_channels) = [True, False, True]"
    by (simp_all add: three_defs)
  have chain: "cb_position 51 30 (snd (cb_position 50 30 three_channels)) =
     (None, snd (cb_position 50 30 three_channels))"
    using cb_position_sections_and_debounce [OF h, of 50] by (simp add: o)
  show ?thesis
    using cb_position_sections_and_debounce [OF h, of "- 99"] chain by (simp add: o)
qed


section \<open>Claims about the Button Router\<close>

lemma snd_except_IndexError: "snd (except_IndexError r) = snd r"
  by (cases r) (auto simp: except_IndexError_def split: option.splits)

lemma set_active_indices_length:
  "length (snd (set_active_indices idxs v sl)) = length sl"
  by (induction idxs arbitrary: sl) (auto split: option.splits)

lemma set_active_indices_ok:
  assumes "list_all (\<lambda>i. 0 \<le> i \<and> i < int (length sl)) idxs"
  shows "fst (set_active_indices idxs v sl) = None \<and>
         (\<forall>j < length sl. snd (set_active_indices idxs v sl) ! j =
            (if int j \<in> set idxs then (sl ! j)\<lparr>active := v\<rparr> else sl ! j))"
  using assms
proof (induction idxs arbitrary: sl)
  case Nil
  show ?case by simp
next
  case (Cons i idxs)
  let ?sl1 = "sl[nat i := (sl ! nat i)\<lparr>active := v\<rparr>]"
  from Cons.prems have i: "0 \<le> i" "i < int (length sl)"
    and rest: "list_all (\<lambda>i. 0 \<le> i \<and> i < int (length ?sl1)) idxs"
    by simp_all
  have step: "set_active_indices (i # idxs) v sl = set_active_indices idxs v ?sl1"
    using i by (simp add: py_index_def)
  from Cons.IH [OF rest]
  have ih1: "fst (set_active_indices idxs v ?sl1) = None"
    and ih2: "\<And>j. j < length sl \<Longrightarrow> snd (set_active_indices idxs v ?sl1) ! j =
            (if int j \<in> set idxs then (?sl1 ! j)\<lparr>active := v\<rparr> else ?sl1 ! j)"
    by simp_all
  have "snd (set_active_indices idxs v ?sl1) ! j =
          (if int j \<in> set (i # idxs) then (sl ! j)\<lparr>active := v\<rparr> else sl ! j)"
    if "j < length sl" for j
  proof (cases "j = nat i")
    case True
    then show ?thesis using that i by (simp add: ih2)
  next
    case False
    then have "int j \<noteq> i" using i by auto
    then show ?thesis using that False by (simp add: ih2)
  qed
  with ih1 show ?case by (simp only: step) blast
qed

lemma set_active_indices_fail:
  assumes "\<not> list_all (\<lambda>i. py_index (length sl) i \<noteq> None) idxs"
  shows "fst (set_active_indices idxs v sl) = Some IndexError"
  using assms
  by (induction idxs arbitrary: sl) (auto split: option.splits)

lemma cb_button_state:
  "button_state_dict (snd (cb_button True u w)) =
     (button_state_dict w)(u \<mapsto> \<not> group_default w u)"
  by (auto simp: cb_button_def cb_button_try_def Let_def snd_except_IndexError group_default_def
      print_current_state_fields split: option.splits prod.splits)

lemma cb_button_index_dict:
  "index_dict (snd (cb_button True u w)) = index_dict w"
  by (auto simp: cb_button_def cb_button_try_def Let_def snd_except_IndexError
      print_current_state_fields split: option.splits prod.splits)

lemma cb_button_server_list:
  assumes "index_dict w u = Some idxs"
  shows "server_list (snd (cb_button True u w)) =
           snd (set_active_indices idxs (\<not> group_default w u) (server_list w))"
  using assms
  by (auto simp: cb_button_def cb_button_try_def Let_def snd_except_IndexError group_default_def
      print_current_state_fields split: option.splits prod.splits)


lemmas button_defs = shared_button_def initial_world_def remote_gamepad_def

lemma shared_button_facts:
  "button_state_dict shared_button ''a'' = None"
  "index_dict shared_button ''a'' = Some [0, 1]"
  "length (server_list shared_button) = 2"
  "map active (server_list shared_button) = [True, True]"
  by (simp_all add: button_defs Let_def)

lemma stale_index_facts:
  "button_state_dict stale_index ''a'' = None"
  "index_dict stale_index ''a'' = Some [0, 5, 1]"
  "length (server_list stale_index) = 2"
  "set_color_calls stale_index = []"
  "stdout stale_index = []"
  by (simp_all add: stale_index_def button_defs Let_def)

text \<open>
  The callback reads a missing group state as on (\<^verbatim>\<open>button_state_dict.get(uid, True)\<close>): a
  release-edge callback that finds no state recorded records off and switches the bound
  channels off. This is the call \<^verbatim>\<open>start_RGB_Buttons\<close> makes for every button before it
  registers the callback with the driver.
\<close>

theorem cb_button_first_release_sets_off:
  assumes "button_state_dict w u = None"
  shows "button_state_dict (snd (cb_button True u w)) u = Some False \<and>
         (\<forall>idxs. index_dict w u = Some idxs \<and>
                  list_all (\<lambda>i. 0 \<le> i \<and> i < int (length (server_list w))) idxs \<longrightarrow>
            list_all (\<lambda>i. \<not> active (server_list (snd (cb_button True u w)) ! nat i)) idxs)"
proof -
  have gd: "group_default w u" using assms by (simp add: group_default_def)
  have "button_state_dict (snd (cb_button True u w)) u = Some False"
    by (simp add: cb_button_state gd)
  moreover have "list_all (\<lambda>i. \<not> active (server_list (snd (cb_button True u w)) ! nat i)) idxs"
    if idx: "index_dict w u = Some idxs"
      and ok: "list_all (\<lambda>i. 0 \<le> i \<and> i < int (length (server_list w))) idxs" for idxs
  proof -
    have sl: "server_list (snd (cb_button True u w)) =
                snd (set_active_indices idxs False (server_list w))"
      using cb_button_server_list [OF idx] gd by simp
    have "\<not> active (snd (set_active_indices idxs False (server_list w)) ! nat i)"
      if "i \<in> set idxs" for i
    proof -
      from that ok have i: "0 \<le> i" "nat i < length (server_list w)"
        by (auto simp: list_all_iff)
      with set_active_indices_ok [OF ok, of False] that show ?thesis by simp
    qed
    then show ?thesis by (simp add: sl list_all_iff)
  qed
  ultimately show ?thesis by blast
qed

theorem cb_button_first_release_sets_off_witness:
  "button_state_dict shared_button ''a'' = None \<and>
   button_state_dict (snd (cb_button True ''a'' shared_button)) ''a'' = Some False \<and>
   \<not> active (server_list (snd (cb_button True ''a'' shared_button)) ! 0) \<and>
   \<not> active (server_list (snd (cb_button True ''a'' shared_button)) ! 1)"
  using cb_button_first_release_sets_off [of shared_button "''a''"]
  by (simp add: shared_button_facts)

text \<open>
  C4, as the claim states it, fails: with the index list \<open>[0, 5, 1]\<close> and two channels the
  callback returns without any exception; channel 0 has been switched, channel 1 has not,
  and nothing was printed.
\<close>

theorem cb_button_stale_index_example:
  "index_dict stale_index ''a'' = Some [0, 5, 1] \<and>
   length (server_list stale_index) = 2 \<and>
   fst (cb_button True ''a'' stale_index) = None \<and>
   map active (server_list (snd (cb_button True ''a'' stale_index))) = [False, True] \<and>
   stdout (snd (cb_button True ''a'' stale_index)) = []"
  by (simp add: stale_index_def button_defs Let_def cb_button_def cb_button_try_def except_IndexError_def
      py_index_def)

text \<open>
  C4, amended. When the index list of a button identity holds an index outside the server
  list, the \<^verbatim>\<open>IndexError\<close> is caught inside the callback (\<^verbatim>\<open>except IndexError: pass\<close>): the
  callback returns normally, the group state has already been flipped, and the Indicator
  Reflector is not called (no \<^verbatim>\<open>set_color\<close> call, no status line).
\<close>

theorem cb_button_swallows_IndexError:
  assumes "index_dict w u = Some idxs"
    and "\<not> list_all (\<lambda>i. py_index (length (server_list w)) i \<noteq> None) idxs"
  shows "fst (cb_button True u w) = None \<and>
         button_state_dict (snd (cb_button True u w)) u = Some (\<not> group_default w u) \<and>
         set_color_calls (snd (cb_button True u w)) = set_color_calls w \<and>
         stdout (snd (cb_button True u w)) = stdout w"
proof -
  obtain e sl where r: "set_active_indices idxs (\<not> group_default w u) (server_list w) = (e, sl)"
    by (cases "set_active_indices idxs (\<not> group_default w u) (server_list w)")
  have "fst (set_active_indices idxs (\<not> group_default w u) (server_list w)) = Some IndexError"
    using assms(2) by (rule set_active_indices_fail)
  with r have e: "e = Some IndexError" by simp
  show ?thesis
    using assms(1) r e
    by (simp add: cb_button_def cb_button_try_def Let_def except_IndexError_def group_default_def)
qed

theorem cb_button_swallows_IndexError_witness:
  "fst (cb_button True ''a'' stale_index) = None \<and>
   button_state_dict (snd (cb_button True ''a'' stale_index)) ''a'' = Some False \<and>
   set_color_calls (snd (cb_button True ''a'' stale_index)) = [] \<and>
   stdout (snd (cb_button True ''a'' stale_index)) = []"
  using cb_button_swallows_IndexError [of stale_index "''a''" "[0, 5, 1]"]
  by (simp add: stale_index_facts py_index_def group_default_def)

lemma cb_button_pair:
  assumes "index_dict w u = Some [0, 1]" and "2 \<le> length (server_list w)"
  shows "button_state_dict (snd (cb_button True u w)) u = Some (\<not> group_default w u)"
    and "group_default (snd (cb_button True u w)) u = (\<not> group_default w u)"
    and "index_dict (snd (cb_button True u w)) u = Some [0, 1]"
    and "2 \<le> length (server_list (snd (cb_button True u w)))"
    and "active (server_list (snd (cb_button True u w)) ! 0) = (\<not> group_default w u)"
    and "active (server_list (snd (cb_button True u w)) ! 1) = (\<not> group_default w u)"
proof -
  define idxs :: "int list" where "idxs = [0, 1]"
  define v where "v = (\<not> group_default w u)"
  have mem: "int 0 \<in> set idxs" "int 1 \<in> set idxs" by (simp_all add: idxs_def)
  have ok: "list_all (\<lambda>i. 0 \<le> i \<and> i < int (length (server_list w))) idxs"
    using assms(2) by (auto simp: idxs_def)
  have sl: "server_list (snd (cb_button True u w)) =
              snd (set_active_indices idxs v (server_list w))"
    unfolding idxs_def v_def by (rule cb_button_server_list [OF assms(1)])
  show "button_state_dict (snd (cb_button True u w)) u = Some (\<not> group_default w u)"
    by (simp add: cb_button_state)
  then show "group_default (snd (cb_button True u w)) u = (\<not> group_default w u)"
    by (simp add: group_default_def)
  show "index_dict (snd (cb_button True u w)) u = Some [0, 1]"
    by (simp add: cb_button_index_dict assms(1))
  show "2 \<le> length (server_list (snd (cb_button True u w)))"
    using assms(2) unfolding sl by (simp only: set_active_indices_length)
  have at: "snd (set_active_indices idxs v (server_list w)) ! j =
              (if int j \<in> set idxs then (server_list w ! j)\<lparr>active := v\<rparr>
               else server_list w ! j)" if "j < length (server_list w)" for j
    using set_active_indices_ok [OF ok, of v] that by blast
  have l: "0 < length (server_list w)" "1 < length (server_list w)"
    using assms(2) by linarith+
  have "active (server_list (snd (cb_button True u w)) ! 0) = v"
    using at [OF l(1)] mem(1) by (simp add: sl)
  then show "active (server_list (snd (cb_button True u w)) ! 0) = (\<not> group_default w u)"
    by (simp add: v_def)
  have "active (server_list (snd (cb_button True u w)) ! 1) = v"
    using at [OF l(2)] mem(2) by (simp add: sl)
  then show "active (server_list (snd (cb_button True u w)) ! 1) = (\<not> group_default w u)"
    by (simp add: v_def)
qed

lemma release_events_pair:
  assumes "index_dict w u = Some [0, 1]" and "2 \<le> length (server_list w)"
  shows "button_state_dict (release_events (Suc n) u w) u =
           Some (if even n then \<not> group_default w u else group_default w u) \<and>
         active (server_list (release_events (Suc n) u w) ! 0) =
           (if even n then \<not> group_default w u else group_default w u) \<and>
         active (server_list (release_events (Suc n) u w) ! 1) =
           (if even n then \<not> group_default w u else group_default w u)"
  using assms
proof (induction n arbitrary: w)
  case 0
  then show ?case using cb_button_pair [of w u] by simp
next
  case (Suc n)
  let ?w1 = "snd (cb_button True u w)"
  have 1: "index_dict ?w1 u = Some [0, 1]" and 2: "2 \<le> length (server_list ?w1)"
    and g: "group_default ?w1 u = (\<not> group_default w u)"
    using Suc.prems by (simp_all add: cb_button_pair)
  have "release_events (Suc (Suc n)) u w = release_events (Suc n) u ?w1"
    by simp
  with Suc.IH [OF 1 2] show ?case by (simp add: g)
qed

text \<open>
  \<^verbatim>\<open>start_RGB_Buttons\<close> issues the first release-edge callback itself, once per button: for
  two active channels on one button it ends with both switched off, and the release that
  follows switches both on.
\<close>

lemma start_RGB_Buttons_switches_off:
  "start_RGB_Buttons (initial_world [remote_gamepad 0 ''a'' True, remote_gamepad 1 ''a'' True]) =
     cb_button True ''a'' shared_button \<and>
   fst (cb_button True ''a'' shared_button) = None \<and>
   button_state_dict (snd (cb_button True ''a'' (snd (cb_button True ''a'' shared_button)))) ''a'' =
     Some True \<and>
   map active (server_list (snd (cb_button True ''a'' (snd (cb_button True ''a'' shared_button))))) =
     [True, True]"
proof -
  have ud: "uid_dict shared_button = [(''a'', BrickletRGBLEDButton ''a'')]"
    by (simp add: button_defs Let_def)
  have ok: "fst (cb_button True ''a'' shared_button) = None"
    by (simp add: button_defs Let_def cb_button_def cb_button_try_def except_IndexError_def
      print_current_state_def color_all_buttons_def add_colors_def py_index_def)
  have start: "start_RGB_Buttons (initial_world [remote_gamepad 0 ''a'' True, remote_gamepad 1 ''a'' True]) =
     cb_button True ''a'' shared_button"
  proof -
    have "start_RGB_Buttons (initial_world [remote_gamepad 0 ''a'' True, remote_gamepad 1 ''a'' True]) =
        (case initial_cb_buttons (map fst (uid_dict shared_button)) shared_button of
           (Some e, w2) \<Rightarrow> (Some e, switch_off w2)
         | (None, w2) \<Rightarrow> (None, w2))"
      by (simp add: start_RGB_Buttons_def shared_button_def initial_world_def Let_def)
    then show ?thesis
      using ok by (cases "cb_button True ''a'' shared_button") (simp add: ud)
  qed
  have h: "index_dict shared_button ''a'' = Some [0, 1]" "2 \<le> length (server_list shared_button)"
    by (simp_all add: shared_button_facts)
  have gd: "group_default shared_button ''a''"
    by (simp add: group_default_def shared_button_facts)
  note t = release_events_pair [OF h, of "Suc 0"]
  have l: "length (server_list (snd (cb_button True ''a'' (snd (cb_button True ''a'' shared_button))))) = 2"
    by (simp add: cb_button_server_list [where idxs = "[0, 1]"] cb_button_index_dict
        shared_button_facts set_active_indices_length del: set_active_indices.simps)
  have "map active (server_list (snd (cb_button True ''a'' (snd (cb_button True ''a'' shared_button))))) =
     [True, True]"
    using t gd l by (auto simp: list_eq_iff_nth_eq nth_Cons' less_Suc_eq numeral_2_eq_2)
  moreover have "button_state_dict (snd (cb_button True ''a'' (snd (cb_button True ''a'' shared_button)))) ''a'' =
     Some True"
    using t gd by simp
  ultimately show ?thesis using start ok by simp
qed

text \<open>
  C7. For a button identity bound to channels 0 and 1, after the \<open>n+1\<close>-th release-edge
  callback the group state and the active flags of both channels all hold the same value,
  which alternates from one callback to the next, starting from the negation of the
  recorded group state (off when none is recorded) whatever the flags were before; a
  callback whose state is not the release edge returns the state unchanged.
\<close>

theorem cb_button_toggles_pair:
  assumes "index_dict w u = Some [0, 1]" and "2 \<le> length (server_list w)"
  shows "(\<forall>n. button_state_dict (release_events (Suc n) u w) u =
                Some (if even n then \<not> group_default w u else group_default w u) \<and>
              active (server_list (release_events (Suc n) u w) ! 0) =
                (if even n then \<not> group_default w u else group_default w u) \<and>
              active (server_list (release_events (Suc n) u w) ! 1) =
                (if even n then \<not> group_default w u else group_default w u)) \<and>
         cb_button False u w = (None, w)"
  using release_events_pair [OF assms] by (simp add: cb_button_def)

theorem cb_button_toggles_pair_witness:
  "map active (server_list shared_button) = [True, True] \<and>
   \<not> active (server_list (release_events 1 ''a'' shared_button) ! 0) \<and>
   \<not> active (server_list (release_events 1 ''a'' shared_button) ! 1) \<and>
   active (server_list (release_events 2 ''a'' shared_button) ! 0) \<and>
   active (server_list (release_events 2 ''a'' shared_button) ! 1) \<and>
   cb_button False ''a'' shared_button = (None, shared_button)"
proof -
  have gd: "group_default shared_button ''a''"
    by (simp add: group_default_def shared_button_facts)
  have h: "index_dict shared_button ''a'' = Some [0, 1]" "2 \<le> length (server_list shared_button)"
    by (simp_all add: shared_button_facts)
  note t = cb_button_toggles_pair [OF h]
  from t have a: "\<not> active (server_list (release_events (Suc 0) ''a'' shared_button) ! 0)"
      "\<not> active (server_list (release_events (Suc 0) ''a'' shared_button) ! 1)"
    using gd by (auto dest: spec [of _ 0])
  from t have b: "active (server_list (release_events (Suc (Suc 0)) ''a'' shared_button) ! 0)"
      "active (server_list (release_events (Suc (Suc 0)) ''a'' shared_button) ! 1)"
    using gd by (auto dest: spec [of _ "Suc 0"])
  from t have c: "cb_button False ''a'' shared_button = (None, shared_button)" by simp
  have n: "(1::nat) = Suc 0" "(2::nat) = Suc (Suc 0)" by simp_all
  show ?thesis
    using a b c by (simp only: n shared_button_facts) simp
qed


section \<open>Claims about the Hotkey Router\<close>

lemma channel_ready_active: "channel_ready ud (s\<lparr>active := v\<rparr>) = channel_ready ud s"
  by (simp add: channel_ready_def)

lemma reflector_ready_toggle:
  assumes "reflector_ready w" and "i < length (server_list w)" and "uid_dict w' = uid_dict w"
    and "server_list w' = (server_list w)[i := (server_list w ! i)\<lparr>active := v\<rparr>]"
  shows "reflector_ready w'"
proof -
  have "channel_ready (uid_dict w) s" if "s \<in> set (server_list w')" for s
  proof -
    from that have "s \<in> insert ((server_list w ! i)\<lparr>active := v\<rparr>) (set (server_list w))"
      using set_update_subset_insert [of "server_list w" i] by (auto simp: assms(4))
    moreover have "channel_ready (uid_dict w) (server_list w ! i)"
      using assms(1,2) by (simp add: reflector_ready_def list_all_length)
    ultimately show ?thesis
      using assms(1) by (auto simp: reflector_ready_def list_all_iff channel_ready_active)
  qed
  then show ?thesis by (simp add: reflector_ready_def list_all_iff assms(3))
qed

lemma print_current_state_ok:
  assumes "reflector_ready w"
  shows "fst (print_current_state w) = None"
proof -
  let ?w = "w\<lparr>stdout := stdout w @ [Current_state (map (\<lambda>s. (index s, active s)) (server_list w))]\<rparr>"
  have "reflector_ready ?w" using assms by (simp add: reflector_ready_def)
  from color_all_buttons_result [OF this] show ?thesis
    by (simp add: print_current_state_def)
qed

lemma scan_hotkey_step:
  assumes "reflector_ready w" and "i < length (server_list w)" and "kb h = Inr b"
  shows "fst (scan_hotkey kb i h w) = None"
    and "server_list (snd (scan_hotkey kb i h w)) =
           (if b \<and> currently_pressed w h \<noteq> Some True
            then (server_list w)[i := (server_list w ! i)\<lparr>active := \<not> active (server_list w ! i)\<rparr>]
            else server_list w)"
    and "currently_pressed (snd (scan_hotkey kb i h w)) = (currently_pressed w)(h \<mapsto> b)"
    and "uid_dict (snd (scan_hotkey kb i h w)) = uid_dict w"
    and "hotkey_list (snd (scan_hotkey kb i h w)) = hotkey_list w"
proof -
  let ?w1 = "w\<lparr>is_pressed_calls := is_pressed_calls w @ [h]\<rparr>"
  let ?w2 = "?w1\<lparr>server_list :=
                 (server_list ?w1)[i := (server_list ?w1 ! i)\<lparr>active := \<not> active (server_list ?w1 ! i)\<rparr>],
               currently_pressed := (currently_pressed ?w1)(h \<mapsto> True)\<rparr>"
  have ready2: "reflector_ready ?w2"
    by (rule reflector_ready_toggle [OF assms(1,2)]) simp_all
  have ok2: "fst (print_current_state ?w2) = None"
    using ready2 by (rule print_current_state_ok)
  consider (toggle) "b" "currently_pressed w h \<noteq> Some True"
    | (held) "b" "currently_pressed w h = Some True"
    | (released) "\<not> b" by blast
  then have "fst (scan_hotkey kb i h w) = None \<and>
    server_list (snd (scan_hotkey kb i h w)) =
           (if b \<and> currently_pressed w h \<noteq> Some True
            then (server_list w)[i := (server_list w ! i)\<lparr>active := \<not> active (server_list w ! i)\<rparr>]
            else server_list w) \<and>
    currently_pressed (snd (scan_hotkey kb i h w)) = (currently_pressed w)(h \<mapsto> b) \<and>
    uid_dict (snd (scan_hotkey kb i h w)) = uid_dict w \<and>
    hotkey_list (snd (scan_hotkey kb i h w)) = hotkey_list w"
  proof cases
    case toggle
    have "scan_hotkey kb i h w = print_current_state ?w2"
      using toggle assms(2,3) by (simp add: scan_hotkey_def Let_def)
    then show ?thesis using toggle ok2 by (simp add: print_current_state_fields)
  next
    case held
    have "scan_hotkey kb i h w = (None, ?w1)"
      using held assms(3) by (simp add: scan_hotkey_def Let_def)
    moreover have "(currently_pressed w)(h \<mapsto> True) = currently_pressed w"
      using held by (auto simp: fun_eq_iff)
    ultimately show ?thesis using held by simp
  next
    case released
    have "scan_hotkey kb i h w =
            (None, ?w1\<lparr>currently_pressed := (currently_pressed ?w1)(h \<mapsto> False)\<rparr>)"
      using released assms(3) by (simp add: scan_hotkey_def Let_def)
    then show ?thesis using released by simp
  qed
  then show "fst (scan_hotkey kb i h w) = None"
    and "server_list (snd (scan_hotkey kb i h w)) =
           (if b \<and> currently_pressed w h \<noteq> Some True
            then (server_list w)[i := (server_list w ! i)\<lparr>active := \<not> active (server_list w ! i)\<rparr>]
            else server_list w)"
    and "currently_pressed (snd (scan_hotkey kb i h w)) = (currently_pressed w)(h \<mapsto> b)"
    and "uid_dict (snd (scan_hotkey kb i h w)) = uid_dict w"
    and "hotkey_list (snd (scan_hotkey kb i h w)) = hotkey_list w"
    by blast+
qed


lemma scan_hotkeys_pass:
  assumes "reflector_ready w" and "i + length hs \<le> length (server_list w)"
    and "distinct hs" and "answers kb hs"
  shows "fst (scan_hotkeys kb i hs w) = None \<and>
         reflector_ready (snd (scan_hotkeys kb i hs w)) \<and>
         length (server_list (snd (scan_hotkeys kb i hs w))) = length (server_list w) \<and>
         hotkey_list (snd (scan_hotkeys kb i hs w)) = hotkey_list w \<and>
         (\<forall>g. currently_pressed (snd (scan_hotkeys kb i hs w)) g =
                (if g \<in> set hs then Some (kb g = Inr True) else currently_pressed w g)) \<and>
         (\<forall>j < length (server_list w).
            active (server_list (snd (scan_hotkeys kb i hs w)) ! j) =
              (if i \<le> j \<and> j < i + length hs \<and> kb (hs ! (j - i)) = Inr True \<and>
                  currently_pressed w (hs ! (j - i)) \<noteq> Some True
               then \<not> active (server_list w ! j) else active (server_list w ! j)))"
  using assms
proof (induction hs arbitrary: i w)
  case Nil
  then show ?case by simp
next
  case (Cons h hs)
  let ?w1 = "snd (scan_hotkey kb i h w)"
  let ?w' = "snd (scan_hotkeys kb (Suc i) hs ?w1)"
  from Cons.prems(4) obtain b where b: "kb h = Inr b"
    by (cases "kb h") (auto simp: answers_def)
  have pressed: "(kb h = Inr True) = b" using b by auto
  have i: "i < length (server_list w)" using Cons.prems(2) by simp
  note step = scan_hotkey_step [where kb = kb and h = h, OF Cons.prems(1) i b]
  have sl1: "server_list ?w1 =
           (if b \<and> currently_pressed w h \<noteq> Some True
            then (server_list w)[i := (server_list w ! i)\<lparr>active := \<not> active (server_list w ! i)\<rparr>]
            else server_list w)"
    by (rule step(2))
  have len1: "length (server_list ?w1) = length (server_list w)"
    by (simp add: sl1)
  have ready1: "reflector_ready ?w1"
  proof (cases "b \<and> currently_pressed w h \<noteq> Some True")
    case True
    show ?thesis
      by (rule reflector_ready_toggle [OF Cons.prems(1) i step(4)]) (simp add: sl1 True)
  next
    case False
    then have "server_list ?w1 = server_list w" by (auto simp: sl1)
    then show ?thesis using Cons.prems(1) by (simp add: reflector_ready_def step(4))
  qed
  have run: "scan_hotkeys kb i (h # hs) w = scan_hotkeys kb (Suc i) hs ?w1"
    using step(1) by (cases "scan_hotkey kb i h w") simp
  have bound1: "Suc i + length hs \<le> length (server_list ?w1)"
    using Cons.prems(2) by (simp add: len1)
  have dist: "distinct hs" and fresh: "h \<notin> set hs" using Cons.prems(3) by simp_all
  have ans: "answers kb hs" using Cons.prems(4) by (simp add: answers_def)
  note ih = Cons.IH [OF ready1 bound1 dist ans]
  have cp1: "currently_pressed ?w1 g = (if g = h then Some b else currently_pressed w g)" for g
    by (simp add: step(3))
  have cp: "currently_pressed ?w' g =
              (if g \<in> set (h # hs) then Some (kb g = Inr True) else currently_pressed w g)" for g
    using ih fresh by (auto simp: cp1 pressed)
  have flag: "active (server_list ?w' ! j) =
              (if i \<le> j \<and> j < i + length (h # hs) \<and> kb ((h # hs) ! (j - i)) = Inr True \<and>
                  currently_pressed w ((h # hs) ! (j - i)) \<noteq> Some True
               then \<not> active (server_list w ! j) else active (server_list w ! j))"
    if j: "j < length (server_list w)" for j
  proof -
    from ih j have at: "active (server_list ?w' ! j) =
              (if Suc i \<le> j \<and> j < Suc i + length hs \<and> kb (hs ! (j - Suc i)) = Inr True \<and>
                  currently_pressed ?w1 (hs ! (j - Suc i)) \<noteq> Some True
               then \<not> active (server_list ?w1 ! j) else active (server_list ?w1 ! j))"
      by (simp add: len1)
    consider (before) "j < i" | (here) "j = i" | (after) "i < j" by linarith
    then show ?thesis
    proof cases
      case before
      then have "server_list ?w1 ! j = server_list w ! j" by (simp add: sl1)
      with at before show ?thesis by simp
    next
      case here
      have "active (server_list ?w1 ! i) =
              (if b \<and> currently_pressed w h \<noteq> Some True
               then \<not> active (server_list w ! i) else active (server_list w ! i))"
        using i by (simp add: sl1)
      with at here show ?thesis by (simp add: pressed)
    next
      case after
      then have same: "server_list ?w1 ! j = server_list w ! j" by (simp add: sl1)
      from after obtain d where d: "j - i = Suc d" "j - Suc i = d"
        by (cases "j - i") auto
      have nth: "(h # hs) ! (j - i) = hs ! (j - Suc i)" by (simp add: d)
      show ?thesis
      proof (cases "j < Suc i + length hs")
        case True
        then have "hs ! (j - Suc i) \<in> set hs" using after by simp
        with fresh have "hs ! (j - Suc i) \<noteq> h" by auto
        then have "currently_pressed ?w1 (hs ! (j - Suc i)) = currently_pressed w (hs ! (j - Suc i))"
          by (simp add: cp1)
        with at after True same nth show ?thesis by simp
      next
        case False
        with at after same show ?thesis by simp
      qed
    qed
  qed
  have "fst (scan_hotkeys kb (Suc i) hs ?w1) = None" "reflector_ready ?w'"
    "length (server_list ?w') = length (server_list w)" "hotkey_list ?w' = hotkey_list w"
    using ih by (simp_all add: len1 step(5))
  with cp flag show ?case
    unfolding run by blast
qed


lemma scan_pass:
  assumes "hotkeys_ready w" and "answers kb (hotkey_list w)" and "k < length (hotkey_list w)"
  shows "fst (scan_hotkeys kb 0 (hotkey_list w) w) = None"
    and "hotkeys_ready (snd (scan_hotkeys kb 0 (hotkey_list w) w))"
    and "hotkey_list (snd (scan_hotkeys kb 0 (hotkey_list w) w)) = hotkey_list w"
    and "currently_pressed (snd (scan_hotkeys kb 0 (hotkey_list w) w)) (hotkey_list w ! k) =
           Some (kb (hotkey_list w ! k) = Inr True)"
    and "active (server_list (snd (scan_hotkeys kb 0 (hotkey_list w) w)) ! k) =
           (if kb (hotkey_list w ! k) = Inr True \<and>
               currently_pressed w (hotkey_list w ! k) \<noteq> Some True
            then \<not> active (server_list w ! k) else active (server_list w ! k))"
proof -
  let ?w' = "snd (scan_hotkeys kb 0 (hotkey_list w) w)"
  have ready: "reflector_ready w" and dist: "distinct (hotkey_list w)"
    and len: "0 + length (hotkey_list w) \<le> length (server_list w)"
    using assms(1) by (simp_all add: hotkeys_ready_def)
  note pass = scan_hotkeys_pass [OF ready len dist assms(2)]
  from pass show "fst (scan_hotkeys kb 0 (hotkey_list w) w) = None" by blast
  from pass have r: "reflector_ready ?w'" and l: "length (server_list ?w') = length (server_list w)"
    and h: "hotkey_list ?w' = hotkey_list w" by blast+
  show "hotkeys_ready ?w'"
    using r l h dist len by (simp add: hotkeys_ready_def)
  show "hotkey_list ?w' = hotkey_list w" by (rule h)
  have mem: "hotkey_list w ! k \<in> set (hotkey_list w)" using assms(3) by simp
  from pass have "currently_pressed ?w' (hotkey_list w ! k) =
      (if hotkey_list w ! k \<in> set (hotkey_list w) then Some (kb (hotkey_list w ! k) = Inr True)
       else currently_pressed w (hotkey_list w ! k))" by blast
  then show "currently_pressed ?w' (hotkey_list w ! k) = Some (kb (hotkey_list w ! k) = Inr True)"
    using mem by simp
  have k: "k < length (server_list w)" using assms(3) len by simp
  from pass have "\<forall>j < length (server_list w).
            active (server_list ?w' ! j) =
              (if 0 \<le> j \<and> j < 0 + length (hotkey_list w) \<and> kb (hotkey_list w ! (j - 0)) = Inr True \<and>
                  currently_pressed w (hotkey_list w ! (j - 0)) \<noteq> Some True
               then \<not> active (server_list w ! j) else active (server_list w ! j))" by blast
  with k have "active (server_list ?w' ! k) =
              (if 0 \<le> k \<and> k < 0 + length (hotkey_list w) \<and> kb (hotkey_list w ! (k - 0)) = Inr True \<and>
                  currently_pressed w (hotkey_list w ! (k - 0)) \<noteq> Some True
               then \<not> active (server_list w ! k) else active (server_list w ! k))" by blast
  then show "active (server_list ?w' ! k) =
           (if kb (hotkey_list w ! k) = Inr True \<and>
               currently_pressed w (hotkey_list w ! k) \<noteq> Some True
            then \<not> active (server_list w ! k) else active (server_list w ! k))"
    using assms(3) by simp
qed

lemma scan_loop_Cons:
  assumes "fst (scan_hotkeys kb 0 (hotkey_list w) w) = None"
  shows "scan_loop (kb # kbs) w = scan_loop kbs (snd (scan_hotkeys kb 0 (hotkey_list w) w))"
  using assms by (cases "scan_hotkeys kb 0 (hotkey_list w) w") simp

lemma scan_loop_held:
  assumes "hotkeys_ready w" and "hotkey_list w = hs" and "k < length hs"
    and "currently_pressed w (hs ! k) = Some True" and "polls_pressed (hs ! k) hs kbs"
  shows "fst (scan_loop kbs w) = None \<and> hotkeys_ready (snd (scan_loop kbs w)) \<and>
         hotkey_list (snd (scan_loop kbs w)) = hs \<and>
         currently_pressed (snd (scan_loop kbs w)) (hs ! k) = Some True \<and>
         active (server_list (snd (scan_loop kbs w)) ! k) = active (server_list w ! k)"
  using assms
proof (induction kbs arbitrary: w)
  case Nil
  then show ?case by simp
next
  case (Cons kb kbs)
  let ?w1 = "snd (scan_hotkeys kb 0 (hotkey_list w) w)"
  from Cons.prems(5) have ans: "answers kb (hotkey_list w)" and down: "kb (hs ! k) = Inr True"
    and rest: "polls_pressed (hs ! k) hs kbs"
    by (simp_all add: polls_pressed_def Cons.prems(2))
  have k: "k < length (hotkey_list w)" using Cons.prems(2,3) by simp
  note pass = scan_pass [OF Cons.prems(1) ans k]
  have 1: "hotkeys_ready ?w1" by (rule pass(2))
  have 2: "hotkey_list ?w1 = hs" using pass(3) Cons.prems(2) by simp
  have 3: "currently_pressed ?w1 (hs ! k) = Some True"
    using pass(4) down Cons.prems(2) by simp
  have 4: "active (server_list ?w1 ! k) = active (server_list w ! k)"
    using pass(5) Cons.prems(2,4) by simp
  from Cons.IH [OF 1 2 Cons.prems(3) 3 rest] 4
  show ?case by (simp only: scan_loop_Cons [OF pass(1)])
qed

text \<open>
  C10. Let \<open>h\<close> be entry \<open>k\<close> of a list of pairwise distinct hotkeys (one per channel, and
  \<open>h\<close> not empty). (1) From the released state, any non-empty run of polls that all report
  \<open>h\<close> pressed leaves the flag of channel \<open>k\<close> toggled exactly once, whatever the length of
  the run, and the state pressed. (2) From the pressed state, polls that report \<open>h\<close> pressed
  do not change the flag. (3) A poll that reports \<open>h\<close> released leaves the flag alone and
  records the released state, from which (1) toggles again. The loop raises nothing on the
  way.
\<close>

theorem scan_loop_toggles_once_per_press:
  assumes "hotkeys_ready w" and "k < length (hotkey_list w)" and "hotkey_list w ! k = h"
    and "h \<noteq> []"
  shows "(currently_pressed w h \<noteq> Some True \<and> kbs \<noteq> [] \<and> polls_pressed h (hotkey_list w) kbs \<longrightarrow>
            fst (scan_loop kbs w) = None \<and> hotkeys_ready (snd (scan_loop kbs w)) \<and>
            hotkey_list (snd (scan_loop kbs w)) = hotkey_list w \<and>
            currently_pressed (snd (scan_loop kbs w)) h = Some True \<and>
            active (server_list (snd (scan_loop kbs w)) ! k) = (\<not> active (server_list w ! k))) \<and>
         (currently_pressed w h = Some True \<and> polls_pressed h (hotkey_list w) kbs \<longrightarrow>
            fst (scan_loop kbs w) = None \<and> hotkeys_ready (snd (scan_loop kbs w)) \<and>
            hotkey_list (snd (scan_loop kbs w)) = hotkey_list w \<and>
            currently_pressed (snd (scan_loop kbs w)) h = Some True \<and>
            active (server_list (snd (scan_loop kbs w)) ! k) = active (server_list w ! k)) \<and>
         (answers kb (hotkey_list w) \<and> kb h = Inr False \<longrightarrow>
            fst (scan_loop [kb] w) = None \<and> hotkeys_ready (snd (scan_loop [kb] w)) \<and>
            hotkey_list (snd (scan_loop [kb] w)) = hotkey_list w \<and>
            currently_pressed (snd (scan_loop [kb] w)) h = Some False \<and>
            active (server_list (snd (scan_loop [kb] w)) ! k) = active (server_list w ! k))"
proof (intro conjI impI)
  assume a: "currently_pressed w h \<noteq> Some True \<and> kbs \<noteq> [] \<and> polls_pressed h (hotkey_list w) kbs"
  then obtain kb1 rest where kbs: "kbs = kb1 # rest" by (cases kbs) auto
  let ?w1 = "snd (scan_hotkeys kb1 0 (hotkey_list w) w)"
  from a have ans: "answers kb1 (hotkey_list w)" and down: "kb1 h = Inr True"
    and more: "polls_pressed h (hotkey_list w) rest"
    by (simp_all add: polls_pressed_def kbs)
  note pass = scan_pass [OF assms(1) ans assms(2)]
  have 1: "hotkeys_ready ?w1" by (rule pass(2))
  have 2: "hotkey_list ?w1 = hotkey_list w" by (rule pass(3))
  have 3: "currently_pressed ?w1 (hotkey_list w ! k) = Some True"
    using pass(4) down assms(3) by simp
  have 4: "active (server_list ?w1 ! k) = (\<not> active (server_list w ! k))"
    using pass(5) down a assms(3) by simp
  have 5: "polls_pressed (hotkey_list w ! k) (hotkey_list w) rest"
    using more assms(3) by simp
  from scan_loop_held [OF 1 2 assms(2) 3 5] 4
  have "fst (scan_loop kbs w) = None \<and> hotkeys_ready (snd (scan_loop kbs w)) \<and>
         hotkey_list (snd (scan_loop kbs w)) = hotkey_list w \<and>
         currently_pressed (snd (scan_loop kbs w)) (hotkey_list w ! k) = Some True \<and>
         active (server_list (snd (scan_loop kbs w)) ! k) = (\<not> active (server_list w ! k))"
    by (simp only: kbs scan_loop_Cons [OF pass(1)])
  then show "fst (scan_loop kbs w) = None" "hotkeys_ready (snd (scan_loop kbs w))"
    "hotkey_list (snd (scan_loop kbs w)) = hotkey_list w"
    "currently_pressed (snd (scan_loop kbs w)) h = Some True"
    "active (server_list (snd (scan_loop kbs w)) ! k) = (\<not> active (server_list w ! k))"
    using assms(3) by simp_all
next
  assume b: "currently_pressed w h = Some True \<and> polls_pressed h (hotkey_list w) kbs"
  then have 3: "currently_pressed w (hotkey_list w ! k) = Some True"
    and 5: "polls_pressed (hotkey_list w ! k) (hotkey_list w) kbs"
    using assms(3) by simp_all
  from scan_loop_held [OF assms(1) refl assms(2) 3 5]
  show "fst (scan_loop kbs w) = None" "hotkeys_ready (snd (scan_loop kbs w))"
    "hotkey_list (snd (scan_loop kbs w)) = hotkey_list w"
    "currently_pressed (snd (scan_loop kbs w)) h = Some True"
    "active (server_list (snd (scan_loop kbs w)) ! k) = active (server_list w ! k)"
    using assms(3) by simp_all
next
  assume c: "answers kb (hotkey_list w) \<and> kb h = Inr False"
  then have ans: "answers kb (hotkey_list w)" and up: "kb (hotkey_list w ! k) = Inr False"
    using assms(3) by simp_all
  note pass = scan_pass [OF assms(1) ans assms(2)]
  have run: "scan_loop [kb] w = (None, snd (scan_hotkeys kb 0 (hotkey_list w) w))"
    using scan_loop_Cons [OF pass(1), of "[]"] by simp
  show "fst (scan_loop [kb] w) = None" unfolding run by simp
  show "hotkeys_ready (snd (scan_loop [kb] w))" unfolding run using pass(2) by simp
  show "hotkey_list (snd (scan_loop [kb] w)) = hotkey_list w" unfolding run using pass(3) by simp
  show "currently_pressed (snd (scan_loop [kb] w)) h = Some False"
    unfolding run using pass(4) up assms(3) by simp
  show "active (server_list (snd (scan_loop [kb] w)) ! k) = active (server_list w ! k)"
    unfolding run using pass(5) up by simp
qed

lemmas two_hotkeys_defs = two_hotkeys_def initial_world_def remote_gamepad_def f1_down_def
  all_up_def

lemma two_hotkeys_facts:
  "hotkeys_ready two_hotkeys"
  "hotkey_list two_hotkeys = [''f1'', ''f2'']"
  "currently_pressed two_hotkeys ''f1'' = None"
  "map active (server_list two_hotkeys) = [False, False]"
  "polls_pressed ''f1'' [''f1'', ''f2''] [f1_down, f1_down, f1_down]"
  "answers all_up [''f1'', ''f2'']"
  by (simp_all add: two_hotkeys_defs hotkeys_ready_def reflector_ready_def channel_ready_def
      polls_pressed_def answers_def)

theorem scan_loop_toggles_once_per_press_witness:
  "hotkeys_ready two_hotkeys \<and>
   fst (scan_loop [f1_down, f1_down, f1_down] two_hotkeys) = None \<and>
   \<not> active (server_list two_hotkeys ! 0) \<and>
   active (server_list (snd (scan_loop [f1_down, f1_down, f1_down] two_hotkeys)) ! 0) \<and>
   currently_pressed (snd (scan_loop [f1_down, f1_down, f1_down] two_hotkeys)) ''f1'' = Some True \<and>
   currently_pressed (snd (scan_loop [all_up] two_hotkeys)) ''f1'' = Some False"
proof -
  have k: "0 < length (hotkey_list two_hotkeys)" "hotkey_list two_hotkeys ! 0 = ''f1''"
    "''f1'' \<noteq> []"
    by (simp_all add: two_hotkeys_facts)
  have off: "\<not> active (server_list two_hotkeys ! 0)"
    by (simp add: two_hotkeys_defs)
  have up: "all_up ''f1'' = Inr False" by (simp add: all_up_def)
  show ?thesis
    using scan_loop_toggles_once_per_press [OF two_hotkeys_facts(1) k, of "[f1_down, f1_down, f1_down]" all_up] off up
    by (simp add: two_hotkeys_facts)
qed

text \<open>
  C5. The claim says that the scan loop never queries the key-checker for an empty hotkey
  string. \<^verbatim>\<open>verify_hotkeys\<close> skips an empty string (\<^verbatim>\<open>if hotkey:\<close>), but \<^verbatim>\<open>scan_loop\<close> has no such
  test: with the hotkey list \<open>['']\<close> every pass calls \<^verbatim>\<open>is_pressed('')\<close>. If that call
  raises, the loop ends with the exception; if it answers true, channel 0 is toggled.
\<close>

theorem scan_loop_queries_empty_hotkey:
  "HotkeyManager_init (\<lambda>h. False) [[]] one_channel = (None, unbound_hotkey) \<and>
   parse_hotkey_calls unbound_hotkey = [] \<and>
   is_pressed_calls (snd (scan_loop [\<lambda>h. Inr False] unbound_hotkey)) = [[]] \<and>
   fst (scan_loop [\<lambda>h. Inl ValueError] unbound_hotkey) = Some ValueError \<and>
   map active (server_list unbound_hotkey) = [False] \<and>
   map active (server_list (snd (scan_loop [\<lambda>h. Inr True] unbound_hotkey))) = [True]"
  by (simp add: one_channel_def unbound_hotkey_def initial_world_def remote_gamepad_def
      HotkeyManager_init_def scan_hotkey_def Let_def
      print_current_state_def color_all_buttons_def add_colors_def)

section \<open>The first press after start-up\<close>









lemma cb_button_uid_dict:
  "uid_dict (snd (cb_button True u w)) = uid_dict w"
  by (auto simp: cb_button_def cb_button_try_def Let_def snd_except_IndexError
      print_current_state_fields split: option.splits prod.splits)










end
